theory Spec2Isabelle
  imports Main "HOL-Library.AList"
begin

section \<open>Feishu client cache, token cache and streaming card session\<close>

text \<open>
  A shallow embedding of \<^verbatim>\<open>extensions/feishu/src/client.ts\<close> (the bounded client
  cache and the domain resolution) and of the streaming-card module whose text follows
  the dynamic-agent module in \<^verbatim>\<open>extensions/feishu/src/dynamic-agent.ts\<close> (the token
  cache and \<^verbatim>\<open>FeishuStreamingSession\<close>).

  Conventions. A JavaScript \<^verbatim>\<open>Map\<close> iterates in insertion order, \<^verbatim>\<open>set\<close> on a
  present key keeps the key's position and \<^verbatim>\<open>delete\<close> removes it: this is an
  association list with \<open>AList.update\<close> and \<open>AList.delete\<close>. Every reading of
  \<^verbatim>\<open>Date.now()\<close> is a parameter of type \<open>int\<close> (milliseconds). An optional value
  (\<^verbatim>\<open>undefined\<close>) is \<open>None\<close>. A string is falsy exactly when it is empty. Numbers
  that the code only counts upwards from a small constant are \<open>nat\<close>. A thrown
  error object is a value of type \<open>error\<close>.
\<close>

subsection \<open>Domain resolution\<close>

text \<open>
  A thrown value: an \<^verbatim>\<open>Error\<close> with its message, or another error object with its
  name and its message (a rejected \<^verbatim>\<open>fetch\<close> throws a \<^verbatim>\<open>TypeError\<close>).
\<close>

datatype error = Error string | Thrown string string

type_synonym FeishuDomain = string

text \<open>The result type \<^verbatim>\<open>Lark.Domain | string\<close> of \<^verbatim>\<open>resolveDomain\<close>.\<close>

datatype Lark_Domain = Feishu | Lark | Custom string

text \<open>\<^verbatim>\<open>s.replace(/\/+$/, "")\<close>: the string without its trailing slashes.\<close>

definition stripTrailingSlashes :: "string \<Rightarrow> string" where
  "stripTrailingSlashes s = rev (dropWhile (\<lambda>c. c = CHR ''/'') (rev s))"

definition startsWith :: "string \<Rightarrow> string \<Rightarrow> bool" where
  "startsWith s p = (take (length p) s = p)"

definition resolveDomain :: "FeishuDomain option \<Rightarrow> Lark_Domain" where
  "resolveDomain domain =
     (if domain = Some ''lark'' then Lark
      else if domain = Some ''feishu'' \<or> domain = None \<or> domain = Some [] then Feishu
      else (case domain of
              Some d \<Rightarrow> Custom (stripTrailingSlashes d)
            | None \<Rightarrow> Feishu))"

definition FEISHU_API_BASE :: string where
  "FEISHU_API_BASE = ''https://open.feishu.cn/open-apis''"

definition LARK_API_BASE :: string where
  "LARK_API_BASE = ''https://open.larksuite.com/open-apis''"

definition resolveApiBase :: "FeishuDomain option \<Rightarrow> string" where
  "resolveApiBase domain =
     (if domain = Some ''lark'' then LARK_API_BASE
      else (case domain of
              Some d \<Rightarrow>
                if d \<noteq> [] \<and> d \<noteq> ''feishu'' \<and> startsWith d ''http''
                then stripTrailingSlashes d @ ''/open-apis''
                else FEISHU_API_BASE
            | None \<Rightarrow> FEISHU_API_BASE))"

subsection \<open>Client cache\<close>

definition CLIENT_CACHE_MAX_SIZE :: nat where
  "CLIENT_CACHE_MAX_SIZE = 50"

text \<open>
  The credentials \<^verbatim>\<open>{ appId, appSecret, domain? }\<close>, stored as \<^verbatim>\<open>config\<close> in a cache
  entry and held as \<^verbatim>\<open>creds\<close> by a streaming session.
\<close>

record Credentials =
  appId :: string
  appSecret :: string
  domain :: "FeishuDomain option"

text \<open>
  The client handle is opaque in the source; it is represented by the arguments
  \<^verbatim>\<open>new Lark.Client\<close> is given (the application type is the constant
  \<^verbatim>\<open>SelfBuild\<close>).
\<close>

datatype Client = Client string string Lark_Domain

record cache_entry =
  client :: Client
  config :: Credentials
  lastAccess :: int

type_synonym client_cache = "(string \<times> cache_entry) list"

text \<open>
  The scan of \<^verbatim>\<open>evictOldestIfNeeded\<close>, in the map's iteration order. \<open>oldestTime\<close> is
  \<open>None\<close> for the initial \<^verbatim>\<open>Infinity\<close>, below which every timestamp lies.
\<close>

fun findOldest :: "client_cache \<Rightarrow> string option \<Rightarrow> int option \<Rightarrow> string option" where
  "findOldest [] oldestKey oldestTime = oldestKey"
| "findOldest ((key, val) # rest) oldestKey oldestTime =
     (if (case oldestTime of None \<Rightarrow> True | Some t \<Rightarrow> lastAccess val < t)
      then findOldest rest (Some key) (Some (lastAccess val))
      else findOldest rest oldestKey oldestTime)"

text \<open>
  The final test \<^verbatim>\<open>if (oldestKey)\<close> is a truthiness test: it fails for \<^verbatim>\<open>null\<close> and
  for the empty string.
\<close>

definition evictOldestIfNeeded :: "client_cache \<Rightarrow> client_cache" where
  "evictOldestIfNeeded c =
     (if length c < CLIENT_CACHE_MAX_SIZE then c
      else (case findOldest c None None of
              None \<Rightarrow> c
            | Some oldestKey \<Rightarrow> if oldestKey \<noteq> [] then AList.delete oldestKey c else c))"

definition falsy :: "string option \<Rightarrow> bool" where
  "falsy x = (x = None \<or> x = Some [])"

text \<open>
  \<^verbatim>\<open>createFeishuClient(creds)\<close> at time \<open>now\<close>: the error thrown, or the client
  returned together with the cache afterwards.
\<close>

definition createFeishuClient ::
  "string option \<Rightarrow> string option \<Rightarrow> string option \<Rightarrow> FeishuDomain option \<Rightarrow> int \<Rightarrow>
   client_cache \<Rightarrow> error + (Client \<times> client_cache)" where
  "createFeishuClient accountId_opt appId_opt appSecret_opt domain_opt now c =
     (let accountId = (case accountId_opt of None \<Rightarrow> ''default'' | Some a \<Rightarrow> a) in
      if falsy appId_opt \<or> falsy appSecret_opt
      then Inl (Error (''Feishu credentials not configured for account ''
                        @ [CHR 0x22] @ accountId @ [CHR 0x22]))
      else
        let app = the appId_opt; secret = the appSecret_opt;
            cfg = \<lparr>appId = app, appSecret = secret, domain = domain_opt\<rparr>;
            cl = Client app secret (resolveDomain domain_opt);
            miss = Inr (cl, AList.update accountId
                              \<lparr>client = cl, config = cfg, lastAccess = now\<rparr>
                              (evictOldestIfNeeded c)) in
        (case map_of c accountId of
           Some cached \<Rightarrow>
             if config cached = cfg
             then Inr (client cached, AList.update accountId (cached\<lparr>lastAccess := now\<rparr>) c)
             else miss
         | None \<Rightarrow> miss))"

definition getClientCacheSize :: "client_cache \<Rightarrow> nat" where
  "getClientCacheSize c = length c"

text \<open>
  A sequence of calls of \<^verbatim>\<open>createFeishuClient\<close>, each with its credentials and the
  time it is made; a call that throws leaves the cache as it was.
\<close>

datatype client_call =
  CreateFeishuClient "string option" "string option" "string option" "FeishuDomain option" int

fun createFeishuClients :: "client_call list \<Rightarrow> client_cache \<Rightarrow> client_cache" where
  "createFeishuClients [] c = c"
| "createFeishuClients (CreateFeishuClient a i s d now # rest) c =
     (case createFeishuClient a i s d now c of
        Inl e \<Rightarrow> createFeishuClients rest c
      | Inr (cl, c') \<Rightarrow> createFeishuClients rest c')"

text \<open>
  Sample calls: account number \<open>n\<close> has the \<^verbatim>\<open>accountId\<close> of \<open>n\<close> letters
  \<^verbatim>\<open>a\<close> (the empty string for \<open>0\<close>) and is requested at time \<open>n\<close>.
\<close>

definition account_calls :: "nat list \<Rightarrow> client_call list" where
  "account_calls ns =
     map (\<lambda>n. CreateFeishuClient (Some (replicate n (CHR ''a''))) (Some ''id'') (Some ''secret'')
                None (int n)) ns"

definition sample_entry :: "nat \<Rightarrow> string \<times> cache_entry" where
  "sample_entry n =
     (replicate n (CHR ''a''),
      \<lparr>client = Client ''id'' ''secret'' Feishu,
       config = \<lparr>appId = ''id'', appSecret = ''secret'', domain = None\<rparr>,
       lastAccess = int n\<rparr>)"

text \<open>The cache after the sample accounts 1 to 50 have been requested.\<close>

definition sample_cache :: client_cache where
  "sample_cache = map sample_entry [1..<51]"

text \<open>\<open>t\<close> lies below the oldest time found so far.\<close>

definition below :: "int option \<Rightarrow> int \<Rightarrow> bool" where
  "below otime t = (case otime of None \<Rightarrow> True | Some t0 \<Rightarrow> t < t0)"

text \<open>
  The state of a cache whose keys are distinct and non-empty and which is within its
  capacity.
\<close>

definition cache_inv :: "client_cache \<Rightarrow> bool" where
  "cache_inv c =
     (distinct (map fst c) \<and> length c \<le> CLIENT_CACHE_MAX_SIZE \<and> [] \<notin> fst ` set c)"

subsection \<open>Token cache\<close>

record token_entry =
  token :: string
  expiresAt :: int

text \<open>The module state: \<^verbatim>\<open>tokenCache\<close> and \<^verbatim>\<open>lastTokenCacheCleanup\<close>.\<close>

record token_store =
  tokenCache :: "(string \<times> token_entry) list"
  lastTokenCacheCleanup :: int

definition TOKEN_CACHE_CLEANUP_INTERVAL_MS :: int where
  "TOKEN_CACHE_CLEANUP_INTERVAL_MS = 5 * 60 * 1000"

definition cleanupTokenCache :: "int \<Rightarrow> token_store \<Rightarrow> token_store" where
  "cleanupTokenCache now ts =
     (if now - lastTokenCacheCleanup ts < TOKEN_CACHE_CLEANUP_INTERVAL_MS then ts
      else ts\<lparr>lastTokenCacheCleanup := now,
              tokenCache := filter (\<lambda>(key, val). \<not> expiresAt val < now) (tokenCache ts)\<rparr>)"

text \<open>
  What an awaited request gives back: it rejects (the \<^verbatim>\<open>await\<close> throws) or it
  resolves with a value.
\<close>

datatype 'a reply = Rejects error | Resolves 'a

text \<open>The JSON body of the token exchange response.\<close>

record token_data =
  code :: int
  msg :: string
  tenant_access_token :: "string option"
  expire :: "int option"

definition tokenKey :: "Credentials \<Rightarrow> string" where
  "tokenKey creds =
     (case domain creds of None \<Rightarrow> ''feishu'' | Some d \<Rightarrow> d) @ ''|'' @ appId creds"

text \<open>
  \<^verbatim>\<open>getToken(creds)\<close>. The three readings of the clock are \<open>now_sweep\<close> (inside
  \<^verbatim>\<open>cleanupTokenCache\<close>), \<open>now_lookup\<close> (the freshness test) and \<open>now_store\<close>
  (after the exchange has answered); \<open>res\<close> is the answer of the exchange request,
  looked at only when the request is made. The result is the token returned or the
  error thrown, and the module state afterwards.
\<close>

definition getToken ::
  "Credentials \<Rightarrow> int \<Rightarrow> int \<Rightarrow> token_data reply \<Rightarrow> int \<Rightarrow> token_store \<Rightarrow>
   (error + string) \<times> token_store" where
  "getToken creds now_sweep now_lookup res now_store ts =
     (let ts1 = cleanupTokenCache now_sweep ts;
          key = tokenKey creds;
          cached = map_of (tokenCache ts1) key
      in if (case cached of None \<Rightarrow> False | Some e \<Rightarrow> expiresAt e > now_lookup + 60000)
         then (Inr (token (the cached)), ts1)
         else (case res of
                 Rejects e \<Rightarrow> (Inl e, ts1)
               | Resolves data \<Rightarrow>
                   if code data \<noteq> 0 \<or> falsy (tenant_access_token data)
                   then (Inl (Error (''Token error: '' @ msg data)), ts1)
                   else
                     let tok = the (tenant_access_token data);
                         ttl = (case expire data of None \<Rightarrow> 7200 | Some e \<Rightarrow> e)
                     in (Inr tok,
                         ts1\<lparr>tokenCache :=
                               AList.update key
                                 \<lparr>token = tok, expiresAt = now_store + ttl * 1000\<rparr>
                                 (tokenCache ts1)\<rparr>)))"

subsection \<open>Streaming session: data\<close>

record CardState =
  cardId :: string
  messageId :: string
  sequence :: nat
  currentText :: string

text \<open>Decimal digits of a number, as a template literal prints it.\<close>

fun show_nat :: "nat \<Rightarrow> string" where
  "show_nat n =
     (if n < 10 then [char_of (48 + n)]
      else show_nat (n div 10) @ [char_of (48 + n mod 10)])"

declare show_nat.simps [simp del]

text \<open>
  \<^verbatim>\<open>String(err)\<close> for a thrown error object: its name and its message joined by a
  colon, or the one of the two that is not empty.
\<close>

fun String_of :: "error \<Rightarrow> string" where
  "String_of (Error m) = (if m = [] then ''Error'' else ''Error: '' @ m)"
| "String_of (Thrown n m) =
     (if n = [] then m else if m = [] then n else n @ '': '' @ m)"

text \<open>
  The card mutations a session issues with \<^verbatim>\<open>fetch\<close>: the \<^verbatim>\<open>PUT\<close> replacing the
  card's content (URL, \<^verbatim>\<open>content\<close>, \<^verbatim>\<open>sequence\<close>, \<^verbatim>\<open>uuid\<close>) and the \<^verbatim>\<open>PATCH\<close>
  of its settings (URL, summary content, \<^verbatim>\<open>sequence\<close>, \<^verbatim>\<open>uuid\<close>).
\<close>

datatype net_call =
    PutContent string string nat string
  | PatchSettings string string nat string

fun call_content :: "net_call \<Rightarrow> string" where
  "call_content (PutContent url text n u) = text"
| "call_content (PatchSettings url text n u) = text"

fun call_sequence :: "net_call \<Rightarrow> nat" where
  "call_sequence (PutContent url text n u) = n"
| "call_sequence (PatchSettings url text n u) = n"

fun is_content_update :: "net_call \<Rightarrow> bool" where
  "is_content_update (PutContent url text n u) = True"
| "is_content_update (PatchSettings url text n u) = False"

text \<open>What the code reads of a \<^verbatim>\<open>fetch\<close> response.\<close>

record http_response =
  ok :: bool
  status :: nat
  statusText :: string
  bodyMsg :: "string option"

text \<open>
  The session object. \<open>queue\<close>, \<open>running\<close> and \<open>closing\<close> stand for the promise
  chain \<^verbatim>\<open>this.queue\<close>: the texts of the chained units that have not begun, the text
  of the unit that has begun and awaits its token and its request, and the argument
  of a \<^verbatim>\<open>close\<close> call that awaits the chain. \<open>sent\<close> lists the card mutations issued
  so far, oldest first; \<open>logged\<close> and \<open>reported\<close> list the messages handed to the
  \<^verbatim>\<open>log\<close> and \<^verbatim>\<open>error\<close> callbacks.
\<close>

record session =
  creds :: Credentials
  state :: "CardState option"
  closed :: bool
  lastUpdateTime :: int
  pendingText :: "string option"
  updateThrottleMs :: int
  errorCount :: nat
  maxErrors :: nat
  queue :: "string list"
  running :: "string option"
  closing :: "string option option"
  sent :: "net_call list"
  logged :: "string list"
  reported :: "string list"

definition DEFAULT_UPDATE_THROTTLE_MS :: int where
  "DEFAULT_UPDATE_THROTTLE_MS = 100"

text \<open>The constructor and the field initialisers.\<close>

definition new_session :: "Credentials \<Rightarrow> int option \<Rightarrow> session" where
  "new_session cr throttle =
     \<lparr>creds = cr, state = None, closed = False, lastUpdateTime = 0, pendingText = None,
      updateThrottleMs = (case throttle of None \<Rightarrow> DEFAULT_UPDATE_THROTTLE_MS | Some t \<Rightarrow> t),
      errorCount = 0, maxErrors = 5, queue = [], running = None, closing = None,
      sent = [], logged = [], reported = []\<rparr>"

definition isActive :: "session \<Rightarrow> bool" where
  "isActive s = (state s \<noteq> None \<and> \<not> closed s)"

definition getErrorCount :: "session \<Rightarrow> nat" where
  "getErrorCount s = errorCount s"

subsection \<open>Streaming session: start\<close>

record create_data =
  create_code :: int
  create_msg :: string
  card_id :: "string option"

record send_data =
  send_code :: int
  send_msg :: string
  message_id :: "string option"

text \<open>
  \<^verbatim>\<open>start(receiveId, receiveIdType)\<close>. \<open>tok\<close> is what \<^verbatim>\<open>getToken\<close> gives,
  \<open>createRes\<close> the answer to the card creation and \<open>sendRes\<close> the answer to the
  message send. The result is the error thrown, if any, and the session afterwards.
\<close>

definition start ::
  "string \<Rightarrow> string \<Rightarrow> error + string \<Rightarrow> create_data reply \<Rightarrow> send_data reply \<Rightarrow>
   session \<Rightarrow> error option \<times> session" where
  "start receiveId receiveIdType tok createRes sendRes s =
     (if state s \<noteq> None then (None, s)
      else (case tok of
        Inl e \<Rightarrow> (Some e, s)
      | Inr bearer \<Rightarrow>
        (case createRes of
          Rejects e \<Rightarrow> (Some e, s)
        | Resolves createData \<Rightarrow>
            if create_code createData \<noteq> 0 \<or> falsy (card_id createData)
            then (Some (Error (''Create card failed: '' @ create_msg createData)), s)
            else
              (case sendRes of
                Rejects e \<Rightarrow> (Some e, s)
              | Resolves sendData \<Rightarrow>
                  if send_code sendData \<noteq> 0 \<or> falsy (message_id sendData)
                  then (Some (Error (''Send card failed: '' @ send_msg sendData)), s)
                  else
                    let cid = the (card_id createData); mid = the (message_id sendData)
                    in (None,
                        s\<lparr>state := Some \<lparr>cardId = cid, messageId = mid,
                                          sequence = 1, currentText = []\<rparr>,
                          logged := logged s
                            @ [''Started streaming: cardId='' @ cid
                               @ '', messageId='' @ mid]\<rparr>)))))"

subsection \<open>Streaming session: update\<close>

definition handleError :: "string \<Rightarrow> error \<Rightarrow> session \<Rightarrow> session" where
  "handleError ctxt err s =
     (let n = errorCount s + 1;
          errorMsg = ''StreamingCard '' @ ctxt @ '': '' @ String_of err;
          s1 = s\<lparr>errorCount := n, logged := logged s @ [errorMsg],
                 reported := reported s @ [errorMsg]\<rparr>
      in if n \<ge> maxErrors s1
         then s1\<lparr>reported := reported s1
                    @ [''StreamingCard: Too many errors ('' @ show_nat n
                       @ ''), closing session''],
                 closed := True\<rparr>
         else s1)"

text \<open>
  The part of \<^verbatim>\<open>update(text)\<close> that runs at the call, at time \<open>now\<close>: the guard, the
  throttle and the chaining of a unit on the queue.
\<close>

definition update :: "string \<Rightarrow> int \<Rightarrow> session \<Rightarrow> session" where
  "update text now s =
     (if state s = None \<or> closed s then s
      else if now - lastUpdateTime s < updateThrottleMs s
      then s\<lparr>pendingText := Some text\<rparr>
      else s\<lparr>pendingText := None, lastUpdateTime := now, queue := queue s @ [text]\<rparr>)"

definition contentUrl :: "Credentials \<Rightarrow> string \<Rightarrow> string" where
  "contentUrl cr cid =
     resolveApiBase (domain cr) @ ''/cardkit/v1/cards/'' @ cid @ ''/elements/content/content''"

definition contentCall :: "Credentials \<Rightarrow> string \<Rightarrow> string \<Rightarrow> nat \<Rightarrow> net_call" where
  "contentCall cr cid text n =
     PutContent (contentUrl cr cid) text n (''s_'' @ cid @ ''_'' @ show_nat n)"

text \<open>
  The first chained unit begins, once the unit before it has completed: the guard,
  then \<^verbatim>\<open>currentText\<close> and \<^verbatim>\<open>sequence\<close> are written, then the unit awaits.
\<close>

definition unit_start :: "session \<Rightarrow> session" where
  "unit_start s =
     (case queue s of
        [] \<Rightarrow> s
      | text # rest \<Rightarrow>
          if running s \<noteq> None then s
          else (case state s of
                  None \<Rightarrow> s\<lparr>queue := rest\<rparr>
                | Some st \<Rightarrow>
                    if closed s then s\<lparr>queue := rest\<rparr>
                    else s\<lparr>queue := rest, running := Some text,
                           state := Some (st\<lparr>currentText := text,
                                              sequence := sequence st + 1\<rparr>)\<rparr>))"

text \<open>
  The unit that has begun runs to its end: \<open>tok\<close> is what \<^verbatim>\<open>getToken\<close> gives and
  \<open>res\<close> the answer to the \<^verbatim>\<open>PUT\<close>, which is issued only once the token is there.
\<close>

definition unit_finish :: "error + string \<Rightarrow> http_response reply \<Rightarrow> session \<Rightarrow> session" where
  "unit_finish tok res s =
     (case running s of
        None \<Rightarrow> s
      | Some text \<Rightarrow>
          (case state s of
             None \<Rightarrow> s
           | Some st \<Rightarrow>
               let s0 = s\<lparr>running := None\<rparr> in
               (case tok of
                  Inl e \<Rightarrow> handleError ''update'' e s0
                | Inr bearer \<Rightarrow>
                    let s1 = s0\<lparr>sent := sent s0
                                  @ [contentCall (creds s) (cardId st) text (sequence st)]\<rparr>
                    in (case res of
                          Rejects e \<Rightarrow> handleError ''update'' e s1
                        | Resolves r \<Rightarrow>
                            if \<not> ok r
                            then handleError ''update''
                                   (Error (''HTTP '' @ show_nat (status r) @ '': ''
                                           @ (case bodyMsg r of
                                                None \<Rightarrow> statusText r
                                              | Some m \<Rightarrow> m))) s1
                            else s1))))"

subsection \<open>Streaming session: close\<close>

text \<open>
  The white space \<^verbatim>\<open>trim\<close> removes, among the characters of a byte string. The
  model of \<^verbatim>\<open>truncateSummary\<close> is exact for ASCII text: the white space beyond
  ASCII that \<^verbatim>\<open>trim\<close> also removes is left out, and the length counts bytes
  where the source counts UTF-16 code units. Only the summary inside the settings
  update depends on it.
\<close>

definition isSpace :: "char \<Rightarrow> bool" where
  "isSpace c = (c \<in> set [CHR 0x20, CHR 0x09, CHR 0x0A, CHR 0x0B, CHR 0x0C, CHR 0x0D])"

definition trim :: "string \<Rightarrow> string" where
  "trim s = rev (dropWhile isSpace (rev (dropWhile isSpace s)))"

definition truncateSummary :: "string \<Rightarrow> nat \<Rightarrow> string" where
  "truncateSummary text mx =
     (if text = [] then []
      else let clean = trim (map (\<lambda>c. if c = CHR 0x0A then CHR 0x20 else c) text)
           in if length clean \<le> mx then clean else take (mx - 3) clean @ ''...'')"

definition settingsUrl :: "Credentials \<Rightarrow> string \<Rightarrow> string" where
  "settingsUrl cr cid = resolveApiBase (domain cr) @ ''/cardkit/v1/cards/'' @ cid @ ''/settings''"

definition settingsCall :: "Credentials \<Rightarrow> string \<Rightarrow> string \<Rightarrow> nat \<Rightarrow> net_call" where
  "settingsCall cr cid text n =
     PatchSettings (settingsUrl cr cid) (truncateSummary text 50) n
       (''c_'' @ cid @ ''_'' @ show_nat n)"

text \<open>
  The part of \<^verbatim>\<open>close(finalText)\<close> that runs at the call: the guard, the flag, and
  the wait for the queue.
\<close>

definition close :: "string option \<Rightarrow> session \<Rightarrow> session" where
  "close finalText s =
     (if state s = None \<or> closed s then s
      else s\<lparr>closed := True, closing := Some finalText\<rparr>)"

text \<open>
  \<^verbatim>\<open>finalText ?? this.pendingText ?? this.state.currentText\<close>, read once the queue
  has drained.
\<close>

definition closeText :: "string option \<Rightarrow> session \<Rightarrow> CardState \<Rightarrow> string" where
  "closeText finalText s st =
     (case finalText of
        Some t \<Rightarrow> t
      | None \<Rightarrow> (case pendingText s of Some p \<Rightarrow> p | None \<Rightarrow> currentText st))"

text \<open>The final content update of \<^verbatim>\<open>close\<close>, when its condition holds.\<close>

definition close_update ::
  "string \<Rightarrow> error + string \<Rightarrow> http_response reply \<Rightarrow> session \<Rightarrow> session" where
  "close_update text tok res s =
     (case state s of
        None \<Rightarrow> s
      | Some st \<Rightarrow>
          let n = sequence st + 1;
              s0 = s\<lparr>state := Some (st\<lparr>sequence := n\<rparr>)\<rparr>
          in (case tok of
                Inl e \<Rightarrow> handleError ''close update'' e s0
              | Inr bearer \<Rightarrow>
                  let s1 = s0\<lparr>sent := sent s0 @ [contentCall (creds s) (cardId st) text n]\<rparr>
                  in (case res of
                        Rejects e \<Rightarrow> handleError ''close update'' e s1
                      | Resolves r \<Rightarrow>
                          if \<not> ok r
                          then handleError ''close update''
                                 (Error (''HTTP '' @ show_nat (status r))) s1
                          else s1\<lparr>state := Some (st\<lparr>sequence := n, currentText := text\<rparr>)\<rparr>)))"

text \<open>The settings update of \<^verbatim>\<open>close\<close>, which ends the streaming mode.\<close>

definition close_settings ::
  "string \<Rightarrow> error + string \<Rightarrow> http_response reply \<Rightarrow> session \<Rightarrow> session" where
  "close_settings text tok res s =
     (case state s of
        None \<Rightarrow> s
      | Some st \<Rightarrow>
          let n = sequence st + 1;
              s0 = s\<lparr>state := Some (st\<lparr>sequence := n\<rparr>)\<rparr>
          in (case tok of
                Inl e \<Rightarrow> handleError ''close settings'' e s0
              | Inr bearer \<Rightarrow>
                  let s1 = s0\<lparr>sent := sent s0 @ [settingsCall (creds s) (cardId st) text n]\<rparr>
                  in (case res of
                        Rejects e \<Rightarrow> handleError ''close settings'' e s1
                      | Resolves r \<Rightarrow>
                          if \<not> ok r
                          then handleError ''close settings''
                                 (Error (''HTTP '' @ show_nat (status r))) s1
                          else s1)))"

text \<open>
  The rest of \<^verbatim>\<open>close\<close>, which runs when the awaited queue has drained. \<open>tok1\<close> and
  \<open>res1\<close> answer the content update, \<open>tok2\<close> and \<open>res2\<close> the settings update.
  Nothing else of the session can run in between: \<^verbatim>\<open>closed\<close> is set, so every
  \<^verbatim>\<open>update\<close> and \<^verbatim>\<open>close\<close> returns at its guard, and no unit is left.
\<close>

definition close_run ::
  "error + string \<Rightarrow> http_response reply \<Rightarrow> error + string \<Rightarrow> http_response reply \<Rightarrow>
   session \<Rightarrow> session" where
  "close_run tok1 res1 tok2 res2 s =
     (case closing s of
        None \<Rightarrow> s
      | Some finalText \<Rightarrow>
          if queue s \<noteq> [] \<or> running s \<noteq> None then s
          else (case state s of
                  None \<Rightarrow> s
                | Some st \<Rightarrow>
                    let text = closeText finalText s st;
                        s1 = (if text \<noteq> [] \<and> text \<noteq> currentText st
                              then close_update text tok1 res1 s else s);
                        s2 = close_settings text tok2 res2 s1
                    in s2\<lparr>closing := None,
                          logged := logged s2 @ [''Closed streaming: cardId='' @ cardId st]\<rparr>))"

subsection \<open>Streaming session: schedules\<close>

text \<open>
  The session's code runs on one thread and is suspended only at an \<^verbatim>\<open>await\<close>. A
  run of a session is therefore a sequence of the following events, each atomic: a
  call of \<^verbatim>\<open>update\<close> or \<^verbatim>\<open>close\<close> up to its first \<^verbatim>\<open>await\<close>, the beginning of
  the first chained unit, the end of the unit that has begun, and the rest of
  \<^verbatim>\<open>close\<close>. An event that cannot happen in a state leaves it unchanged.
\<close>

datatype event =
    Update string int
  | UnitStart
  | UnitFinish "error + string" "http_response reply"
  | Close "string option"
  | CloseRun "error + string" "http_response reply" "error + string" "http_response reply"

fun step :: "event \<Rightarrow> session \<Rightarrow> session" where
  "step (Update text now) s = update text now s"
| "step UnitStart s = unit_start s"
| "step (UnitFinish tok res) s = unit_finish tok res s"
| "step (Close finalText) s = close finalText s"
| "step (CloseRun tok1 res1 tok2 res2) s = close_run tok1 res1 tok2 res2 s"

fun run :: "event list \<Rightarrow> session \<Rightarrow> session" where
  "run [] s = s"
| "run (e # es) s = run es (step e s)"

text \<open>
  The texts of the \<^verbatim>\<open>update\<close> calls of a schedule that pass the guard and the
  throttle, in the order of the calls.
\<close>

fun accepted :: "event list \<Rightarrow> session \<Rightarrow> string list" where
  "accepted [] s = []"
| "accepted (Update text now # es) s =
     (if isActive s \<and> \<not> now - lastUpdateTime s < updateThrottleMs s
      then text # accepted es (step (Update text now) s)
      else accepted es (step (Update text now) s))"
| "accepted (e # es) s = accepted es (step e s)"

subsection \<open>Sample values\<close>

text \<open>The time to live the exchange reports, in seconds, or the default.\<close>

definition ttl_of :: "token_data \<Rightarrow> int" where
  "ttl_of data = (case expire data of None \<Rightarrow> 7200 | Some e \<Rightarrow> e)"

definition sample_creds :: Credentials where
  "sample_creds = \<lparr>appId = ''cli_a1'', appSecret = ''secret'', domain = None\<rparr>"

subsection \<open>Streaming session: vocabulary of the properties\<close>

text \<open>
  The content updates for the texts \<open>ts\<close> in their order, numbered upwards from the
  sequence number \<open>n\<close> that was used last.
\<close>

fun contentCalls :: "Credentials \<Rightarrow> string \<Rightarrow> nat \<Rightarrow> string list \<Rightarrow> net_call list" where
  "contentCalls cr cid n [] = []"
| "contentCalls cr cid n (t # ts) = contentCall cr cid t (Suc n) # contentCalls cr cid (Suc n) ts"

text \<open>
  The content updates still to come from the unit that has begun and from the
  chained units, followed by those of the texts \<open>later\<close>.
\<close>

definition future :: "session \<Rightarrow> CardState \<Rightarrow> string list \<Rightarrow> net_call list" where
  "future s st later =
     (case running s of
        None \<Rightarrow> contentCalls (creds s) (cardId st) (sequence st) (queue s @ later)
      | Some t \<Rightarrow> contentCall (creds s) (cardId st) t (sequence st)
                  # contentCalls (creds s) (cardId st) (sequence st) (queue s @ later))"

text \<open>An event other than a unit whose \<^verbatim>\<open>getToken\<close> throws.\<close>

fun token_ok :: "event \<Rightarrow> bool" where
  "token_ok (UnitFinish (Inl e) res) = False"
| "token_ok e = True"

text \<open>No unit is chained or has begun.\<close>

definition drained :: "session \<Rightarrow> bool" where
  "drained s = (queue s = [] \<and> running s = None)"

text \<open>The text an event adds to the accepted ones.\<close>

fun accepts :: "event \<Rightarrow> session \<Rightarrow> string list" where
  "accepts (Update text now) s =
     (if isActive s \<and> \<not> now - lastUpdateTime s < updateThrottleMs s then [text] else [])"
| "accepts e s = []"

text \<open>
  A request fails when the token cannot be had, when \<^verbatim>\<open>fetch\<close> rejects, or when
  the response is not \<^verbatim>\<open>ok\<close>.
\<close>

definition failed :: "error + string \<Rightarrow> http_response reply \<Rightarrow> bool" where
  "failed tok res =
     (case tok of
        Inl e \<Rightarrow> True
      | Inr b \<Rightarrow> (case res of Rejects e \<Rightarrow> True | Resolves r \<Rightarrow> \<not> ok r))"

text \<open>The event is the rest of a \<^verbatim>\<open>close\<close> call.\<close>

fun is_CloseRun :: "event \<Rightarrow> bool" where
  "is_CloseRun (CloseRun tok1 res1 tok2 res2) = True"
| "is_CloseRun e = False"

text \<open>
  A session started on card \<^verbatim>\<open>card_1\<close>, responses, and schedules. In
  \<open>six_updates\<close> six updates a second apart are called before the first request has
  answered, and then the requests fail one after the other.
\<close>

definition sample_started :: session where
  "sample_started =
     snd (start ''oc_1'' ''chat_id'' (Inr ''t-1'')
            (Resolves \<lparr>create_code = 0, create_msg = ''ok'', card_id = Some ''card_1''\<rparr>)
            (Resolves \<lparr>send_code = 0, send_msg = ''ok'', message_id = Some ''om_1''\<rparr>)
            (new_session sample_creds None))"

definition http_ok :: http_response where
  "http_ok = \<lparr>ok = True, status = 200, statusText = ''OK'', bodyMsg = None\<rparr>"

definition http_500 :: http_response where
  "http_500 = \<lparr>ok = False, status = 500, statusText = ''Internal Server Error'', bodyMsg = None\<rparr>"

definition failing_unit :: "event list" where
  "failing_unit = [UnitStart, UnitFinish (Inr ''t-1'') (Resolves http_500)]"

definition six_updates :: "event list" where
  "six_updates =
     [Update ''t1'' 1000, Update ''t2'' 2000, Update ''t3'' 3000,
      Update ''t4'' 4000, Update ''t5'' 5000, Update ''t6'' 6000]
     @ failing_unit @ failing_unit @ failing_unit @ failing_unit @ failing_unit
     @ [UnitStart]"

definition two_updates :: "event list" where
  "two_updates =
     [Update ''t1'' 1000, UnitStart, Update ''t2'' 2000,
      UnitFinish (Inr ''t-1'') (Resolves http_500), UnitStart,
      UnitFinish (Inr ''t-1'') (Resolves http_ok)]"

definition one_update :: "event list" where
  "one_update = [Update ''t1'' 1000, UnitStart, UnitFinish (Inr ''t-1'') (Resolves http_ok)]"

definition throttled_pair :: "event list" where
  "throttled_pair =
     [Update ''a'' 1000, UnitStart, UnitFinish (Inr ''t-1'') (Resolves http_ok),
      Update ''b'' 1050]"

section \<open>Properties\<close>

subsection \<open>Domain resolution\<close>

lemma resolveApiBase_fallback:
  assumes "d \<noteq> Some ''lark''" and "\<forall>u. d = Some u \<longrightarrow> \<not> startsWith u ''http''"
  shows "resolveApiBase d = FEISHU_API_BASE"
  using assms by (auto simp: resolveApiBase_def split: option.splits)

lemma resolveDomain_custom:
  assumes "u \<noteq> ''lark''" and "u \<noteq> ''feishu''" and "u \<noteq> []"
  shows "resolveDomain (Some u) = Custom (stripTrailingSlashes u)"
  using assms by (simp add: resolveDomain_def)

text \<open>
  C9. A domain value that is neither \<^verbatim>\<open>feishu\<close> nor \<^verbatim>\<open>lark\<close> and is not a URL
  should fall back to the Feishu deployment in both resolutions. At the value
  \<^verbatim>\<open>foo\<close> the API base does fall back, but \<^verbatim>\<open>resolveDomain\<close>, which the client
  construction uses, returns the value itself as the base of a private deployment.
\<close>

theorem C9_resolveDomain_keeps_unknown_value:
  "resolveApiBase (Some ''foo'') = FEISHU_API_BASE
   \<and> \<not> startsWith ''foo'' ''http''
   \<and> resolveDomain (Some ''foo'') = Custom ''foo''
   \<and> createFeishuClient (Some ''acct'') (Some ''id'') (Some ''secret'') (Some ''foo'') 0 []
       = Inr (Client ''id'' ''secret'' (Custom ''foo''),
              [(''acct'', \<lparr>client = Client ''id'' ''secret'' (Custom ''foo''),
                           config = \<lparr>appId = ''id'', appSecret = ''secret'',
                                     domain = Some ''foo''\<rparr>,
                           lastAccess = 0\<rparr>)])"
  by (simp add: resolveDomain_def resolveApiBase_def stripTrailingSlashes_def startsWith_def
      createFeishuClient_def falsy_def evictOldestIfNeeded_def CLIENT_CACHE_MAX_SIZE_def
      FEISHU_API_BASE_def Let_def)

subsection \<open>Client cache\<close>

lemma findOldest_cases:
  "(findOldest c okey otime = okey \<and> (\<forall>(k', e') \<in> set c. \<not> below otime (lastAccess e')))
   \<or> (\<exists>k e. findOldest c okey otime = Some k \<and> (k, e) \<in> set c
          \<and> below otime (lastAccess e)
          \<and> (\<forall>(k', e') \<in> set c. lastAccess e \<le> lastAccess e'))"
proof (induction c arbitrary: okey otime)
  case Nil
  then show ?case by simp
next
  case (Cons p rest)
  obtain key val where p: "p = (key, val)" by (cases p)
  show ?case
  proof (cases "below otime (lastAccess val)")
    case True
    then have eq: "findOldest (p # rest) okey otime
        = findOldest rest (Some key) (Some (lastAccess val))"
      by (simp add: p below_def)
    from Cons.IH [of "Some key" "Some (lastAccess val)"]
    show ?thesis
    proof
      assume a: "findOldest rest (Some key) (Some (lastAccess val)) = Some key \<and>
        (\<forall>(k', e')\<in>set rest. \<not> below (Some (lastAccess val)) (lastAccess e'))"
      then have "\<forall>(k', e')\<in>set (p # rest). lastAccess val \<le> lastAccess e'"
        by (auto simp: p below_def)
      with a eq True p show ?thesis by auto
    next
      assume "\<exists>k e. findOldest rest (Some key) (Some (lastAccess val)) = Some k \<and>
        (k, e) \<in> set rest \<and> below (Some (lastAccess val)) (lastAccess e) \<and>
        (\<forall>(k', e')\<in>set rest. lastAccess e \<le> lastAccess e')"
      then obtain k e where r: "findOldest rest (Some key) (Some (lastAccess val)) = Some k"
        and m: "(k, e) \<in> set rest" and b: "lastAccess e < lastAccess val"
        and le: "\<forall>(k', e')\<in>set rest. lastAccess e \<le> lastAccess e'"
        by (auto simp: below_def)
      from b True have "below otime (lastAccess e)" by (auto simp: below_def split: option.splits)
      moreover from b le have "\<forall>(k', e')\<in>set (p # rest). lastAccess e \<le> lastAccess e'"
        by (auto simp: p)
      ultimately show ?thesis using r m eq by auto
    qed
  next
    case False
    then have eq: "findOldest (p # rest) okey otime = findOldest rest okey otime"
      by (simp add: p below_def)
    from Cons.IH [of okey otime]
    show ?thesis
    proof
      assume "findOldest rest okey otime = okey \<and>
        (\<forall>(k', e')\<in>set rest. \<not> below otime (lastAccess e'))"
      with False eq p show ?thesis by auto
    next
      assume "\<exists>k e. findOldest rest okey otime = Some k \<and>
        (k, e) \<in> set rest \<and> below otime (lastAccess e) \<and>
        (\<forall>(k', e')\<in>set rest. lastAccess e \<le> lastAccess e')"
      then obtain k e where r: "findOldest rest okey otime = Some k"
        and m: "(k, e) \<in> set rest" and b: "below otime (lastAccess e)"
        and le: "\<forall>(k', e')\<in>set rest. lastAccess e \<le> lastAccess e'"
        by blast
      from b False have "lastAccess e \<le> lastAccess val"
        by (auto simp: below_def split: option.splits)
      with le have "\<forall>(k', e')\<in>set (p # rest). lastAccess e \<le> lastAccess e'"
        by (auto simp: p)
      with r m b eq show ?thesis by auto
    qed
  qed
qed

lemma findOldest_nonempty:
  assumes "c \<noteq> []"
  shows "\<exists>k e. findOldest c None None = Some k \<and> (k, e) \<in> set c
          \<and> (\<forall>(k', e') \<in> set c. lastAccess e \<le> lastAccess e')"
proof -
  from assms obtain a b where "(a, b) \<in> set c" by (cases c) auto
  then have "\<not> (\<forall>(k', e') \<in> set c. \<not> below None (lastAccess e'))"
    by (auto simp: below_def)
  with findOldest_cases [of c None None] show ?thesis by blast
qed

lemma findOldest_strict:
  assumes "(k, e) \<in> set c" and "\<forall>(k', e') \<in> set c. k' \<noteq> k \<longrightarrow> lastAccess e < lastAccess e'"
  shows "findOldest c None None = Some k"
proof -
  from assms(1) have "c \<noteq> []" by auto
  from findOldest_nonempty [OF this] obtain k0 e0 where
    r: "findOldest c None None = Some k0" and m: "(k0, e0) \<in> set c"
    and le: "\<forall>(k', e') \<in> set c. lastAccess e0 \<le> lastAccess e'" by blast
  have "k0 = k"
  proof (rule ccontr)
    assume "k0 \<noteq> k"
    with assms(2) m have "lastAccess e < lastAccess e0" by auto
    moreover from le assms(1) have "lastAccess e0 \<le> lastAccess e" by auto
    ultimately show False by simp
  qed
  with r show ?thesis by simp
qed

lemma length_delete_distinct:
  assumes "distinct (map fst c)" and "k \<in> fst ` set c"
  shows "length (AList.delete k c) = length c - 1"
proof -
  have "length (AList.delete k c) = length (map fst (AList.delete k c))" by simp
  also have "\<dots> = length (removeAll k (map fst c))" by (simp only: delete_keys)
  also have "\<dots> = length (remove1 k (map fst c))"
    using assms(1) by (simp only: distinct_remove1_removeAll)
  also have "\<dots> = length c - 1" using assms(2) by (simp add: length_remove1)
  finally show ?thesis .
qed

lemma length_update:
  "length (AList.update k v c) = (if k \<in> fst ` set c then length c else Suc (length c))"
proof -
  have "length (AList.update k v c) = length (map fst (AList.update k v c))" by simp
  also have "\<dots> = (if k \<in> fst ` set c then length c else Suc (length c))"
    by (simp only: update_keys) simp
  finally show ?thesis .
qed

lemma evict_below: "length c < CLIENT_CACHE_MAX_SIZE \<Longrightarrow> evictOldestIfNeeded c = c"
  by (simp add: evictOldestIfNeeded_def)

lemma evict_full:
  assumes "distinct (map fst c)" and "CLIENT_CACHE_MAX_SIZE \<le> length c" and "[] \<notin> fst ` set c"
  shows "\<exists>k e. (k, e) \<in> set c \<and> (\<forall>(k', e') \<in> set c. lastAccess e \<le> lastAccess e')
           \<and> evictOldestIfNeeded c = AList.delete k c
           \<and> length (evictOldestIfNeeded c) = length c - 1"
proof -
  from assms(2) have "c \<noteq> []" by (auto simp: CLIENT_CACHE_MAX_SIZE_def)
  from findOldest_nonempty [OF this] obtain k e where
    r: "findOldest c None None = Some k" and m: "(k, e) \<in> set c"
    and le: "\<forall>(k', e') \<in> set c. lastAccess e \<le> lastAccess e'" by blast
  from m assms(3) have ne: "k \<noteq> []" by force
  from m have "k \<in> fst ` set c" by force
  with assms(1) have len: "length (AList.delete k c) = length c - 1"
    by (rule length_delete_distinct)
  from r ne assms(2) have "evictOldestIfNeeded c = AList.delete k c"
    by (simp add: evictOldestIfNeeded_def)
  with m le len show ?thesis by auto
qed

lemma evict_inv:
  assumes "cache_inv c"
  shows "distinct (map fst (evictOldestIfNeeded c)) \<and> length (evictOldestIfNeeded c) < CLIENT_CACHE_MAX_SIZE
         \<and> [] \<notin> fst ` set (evictOldestIfNeeded c)"
proof (cases "length c < CLIENT_CACHE_MAX_SIZE")
  case True
  with assms show ?thesis by (simp add: evict_below cache_inv_def)
next
  case False
  with assms have d: "distinct (map fst c)" and f: "CLIENT_CACHE_MAX_SIZE \<le> length c"
    and l: "length c = CLIENT_CACHE_MAX_SIZE" and n: "[] \<notin> fst ` set c"
    by (auto simp: cache_inv_def)
  from evict_full [OF d f n] obtain k where
    e: "evictOldestIfNeeded c = AList.delete k c" and
    len: "length (evictOldestIfNeeded c) = length c - 1" by blast
  have "distinct (map fst (AList.delete k c))" using d by (rule distinct_delete)
  moreover have "[] \<notin> fst ` set (AList.delete k c)"
    using n dom_delete_subset [of k c] by blast
  ultimately show ?thesis using e len l by (simp add: CLIENT_CACHE_MAX_SIZE_def)
qed

lemma createFeishuClient_inv:
  assumes "cache_inv c" and "a \<noteq> Some []"
    and "createFeishuClient a i s d now c = Inr (cl, c')"
  shows "cache_inv c'"
proof -
  define acc where "acc = (case a of None \<Rightarrow> ''default'' | Some x \<Rightarrow> x)"
  from assms(2) have ne: "acc \<noteq> []" by (auto simp: acc_def split: option.splits)
  from assms(3) obtain v c0 where c': "c' = AList.update acc v c0"
    and c0: "c0 = c \<and> acc \<in> fst ` set c \<or> c0 = evictOldestIfNeeded c"
    by (auto simp: createFeishuClient_def acc_def Let_def map_of_eq_Some_iff
        dest!: map_of_SomeD split: if_splits option.splits) force+
  from c0 show ?thesis
  proof
    assume "c0 = c \<and> acc \<in> fst ` set c"
    with assms(1) ne c' show ?thesis
      by (auto simp: cache_inv_def distinct_update length_update dom_update)
  next
    assume "c0 = evictOldestIfNeeded c"
    with evict_inv [OF assms(1)] ne c' show ?thesis
      by (auto simp: cache_inv_def distinct_update length_update dom_update)
  qed
qed

lemma createFeishuClients_inv:
  "cache_inv c \<Longrightarrow> \<forall>x \<in> set calls. \<forall>a i s d now. x = CreateFeishuClient a i s d now \<longrightarrow> a \<noteq> Some []
    \<Longrightarrow> cache_inv (createFeishuClients calls c)"
proof (induction calls arbitrary: c)
  case Nil
  then show ?case by simp
next
  case (Cons x calls)
  obtain a i s d now where x: "x = CreateFeishuClient a i s d now" by (cases x)
  show ?case
  proof (cases "createFeishuClient a i s d now c")
    case (Inl e)
    with Cons x show ?thesis by simp
  next
    case (Inr p)
    obtain cl c' where p: "p = (cl, c')" by (cases p)
    from Cons.prems x have "a \<noteq> Some []" by simp
    with Cons.prems(1) Inr p have "cache_inv c'" by (auto intro: createFeishuClient_inv)
    with Cons.IH [of c'] Cons.prems(2) Inr p x show ?thesis by simp
  qed
qed

text \<open>
  With the sample accounts 1 to 51 the cache ends with 50 entries, and the account
  requested first has been evicted.
\<close>

lemma sample_accounts_bounded:
  "getClientCacheSize (createFeishuClients (account_calls [1..<52]) []) = 50
   \<and> map_of (createFeishuClients (account_calls [1..<52]) []) ''a'' = None"
  by code_simp

text \<open>
  C4. The cache should never hold more than 50 entries, and 51 distinct accounts
  should leave exactly 50. With the sample accounts 0 to 50, where account 0 has the
  empty \<^verbatim>\<open>accountId\<close> and the oldest access time, the scan finds the empty key, the
  test \<^verbatim>\<open>if (oldestKey)\<close> takes it for no key, nothing is evicted, and the cache
  ends with 51 entries.
\<close>

theorem C4_empty_accountId_exceeds_capacity:
  "getClientCacheSize (createFeishuClients (account_calls [0..<51]) []) = 51"
  by code_simp

text \<open>
  C10, as amended. The cache is at capacity and \<^verbatim>\<open>createFeishuClient\<close> is called
  for an account \<open>a\<close> that is cached with other credentials. The scan finds a least
  recently accessed entry \<open>k\<close>, and when its key is not empty that entry is deleted
  before the new entry is set. If \<open>k\<close> belongs to another account, the entry of
  \<open>a\<close> is overwritten where it stands and the cache is left with 49 entries, the
  client of \<open>k\<close> dropped. If \<open>k\<close> is the entry of \<open>a\<close> itself, it is deleted and the
  new entry is appended at the end, and the cache is left with 50 entries.
\<close>

theorem C10_credential_change_at_capacity:
  assumes dist: "distinct (map fst c)" and len: "length c = CLIENT_CACHE_MAX_SIZE"
    and hit: "map_of c a = Some cached"
    and diff: "config cached \<noteq> \<lparr>appId = app, appSecret = secret, domain = dm\<rparr>"
    and app: "app \<noteq> []" and secret: "secret \<noteq> []"
  shows "\<exists>k e. findOldest c None None = Some k \<and> (k, e) \<in> set c
           \<and> (\<forall>(k', e') \<in> set c. lastAccess e \<le> lastAccess e')
           \<and> (k \<noteq> [] \<longrightarrow>
                (\<exists>cl c'. createFeishuClient (Some a) (Some app) (Some secret) dm now c
                            = Inr (cl, c')
                   \<and> c' = AList.update a
                            \<lparr>client = cl,
                             config = \<lparr>appId = app, appSecret = secret, domain = dm\<rparr>,
                             lastAccess = now\<rparr> (AList.delete k c)
                   \<and> (k \<noteq> a \<longrightarrow> map fst c' = removeAll k (map fst c)
                                  \<and> map_of c' k = None
                                  \<and> getClientCacheSize c' = 49)
                   \<and> (k = a \<longrightarrow> map fst c' = removeAll a (map fst c) @ [a]
                                  \<and> getClientCacheSize c' = 50)))"
proof -
  let ?cfg = "\<lparr>appId = app, appSecret = secret, domain = dm\<rparr>"
  let ?cl = "Client app secret (resolveDomain dm)"
  let ?new = "\<lparr>client = ?cl, config = ?cfg, lastAccess = now\<rparr>"
  from len have "c \<noteq> []" by (auto simp: CLIENT_CACHE_MAX_SIZE_def)
  from findOldest_nonempty [OF this] obtain k e where
    f: "findOldest c None None = Some k" and mem: "(k, e) \<in> set c"
    and le: "\<forall>(k', e') \<in> set c. lastAccess e \<le> lastAccess e'" by blast
  let ?c' = "AList.update a ?new (AList.delete k c)"
  have main: "\<exists>cl c'. createFeishuClient (Some a) (Some app) (Some secret) dm now c
                = Inr (cl, c')
       \<and> c' = AList.update a \<lparr>client = cl, config = ?cfg, lastAccess = now\<rparr> (AList.delete k c)
       \<and> (k \<noteq> a \<longrightarrow> map fst c' = removeAll k (map fst c)
                      \<and> map_of c' k = None \<and> getClientCacheSize c' = 49)
       \<and> (k = a \<longrightarrow> map fst c' = removeAll a (map fst c) @ [a]
                      \<and> getClientCacheSize c' = 50)"
    if ne: "k \<noteq> []"
  proof -
    from f ne len have ev: "evictOldestIfNeeded c = AList.delete k c"
      by (simp add: evictOldestIfNeeded_def)
    from hit diff app secret ev
    have r: "createFeishuClient (Some a) (Some app) (Some secret) dm now c = Inr (?cl, ?c')"
      by (simp add: createFeishuClient_def falsy_def Let_def)
    from mem have kin: "k \<in> fst ` set c" by force
    with dist have ld: "length (AList.delete k c) = length c - 1"
      by (rule length_delete_distinct)
    from hit have ain: "a \<in> set (map fst c)" by (force dest: map_of_SomeD)
    have other: "map fst ?c' = removeAll k (map fst c) \<and> map_of ?c' k = None
        \<and> getClientCacheSize ?c' = 49" if ka: "k \<noteq> a"
    proof -
      from ain ka have ain': "a \<in> set (map fst (AList.delete k c))"
        by (simp add: delete_keys)
      then have keys: "map fst ?c' = removeAll k (map fst c)"
        by (simp only: update_keys delete_keys if_True)
      have none: "map_of ?c' k = None"
        using ka by (simp add: update_conv' delete_conv')
      from ain' have "a \<in> fst ` set (AList.delete k c)" by simp
      with ld len have "length ?c' = 49"
        by (simp add: length_update CLIENT_CACHE_MAX_SIZE_def)
      with keys none show ?thesis by (simp add: getClientCacheSize_def)
    qed
    have own: "map fst ?c' = removeAll a (map fst c) @ [a] \<and> getClientCacheSize ?c' = 50"
      if ka: "k = a"
    proof -
      have notin: "a \<notin> set (map fst (AList.delete a c))"
        by (simp add: delete_keys)
      then have keys: "map fst (AList.update a ?new (AList.delete a c))
          = removeAll a (map fst c) @ [a]"
        by (simp only: update_keys delete_keys if_False)
      from notin have "a \<notin> fst ` set (AList.delete a c)" by simp
      with ld len ka have "length (AList.update a ?new (AList.delete a c)) = 50"
        by (simp add: length_update CLIENT_CACHE_MAX_SIZE_def)
      with keys ka show ?thesis by (simp add: getClientCacheSize_def)
    qed
    from r other own show ?thesis by blast
  qed
  from f mem le main show ?thesis by blast
qed

text \<open>
  The sample cache of 50 accounts, when the secret of the third account changes: the
  first account's client is dropped and 49 entries remain.
\<close>

theorem C10_credential_change_witness:
  "\<exists>cl c'. createFeishuClient (Some ''aaa'') (Some ''id'') (Some ''rotated'') None 100 sample_cache
             = Inr (cl, c')
     \<and> map_of sample_cache ''a'' \<noteq> None \<and> map_of c' ''a'' = None
     \<and> getClientCacheSize sample_cache = 50 \<and> getClientCacheSize c' = 49"
proof -
  have h1: "distinct (map fst sample_cache)" by code_simp
  have h2: "length sample_cache = CLIENT_CACHE_MAX_SIZE" by code_simp
  have h3: "map_of sample_cache ''aaa'' = Some (snd (sample_entry 3))" by code_simp
  have h4: "config (snd (sample_entry 3))
      \<noteq> \<lparr>appId = ''id'', appSecret = ''rotated'', domain = None\<rparr>" by code_simp
  have h5: "''id'' \<noteq> []" and h6: "''rotated'' \<noteq> []" by simp_all
  have h7: "findOldest sample_cache None None = Some ''a''" by code_simp
  have h8: "map_of sample_cache ''a'' \<noteq> None" by code_simp
  from C10_credential_change_at_capacity [OF h1 h2 h3 h4 h5 h6, of 100] h7
  have "\<exists>cl c'. createFeishuClient (Some ''aaa'') (Some ''id'') (Some ''rotated'') None 100
                   sample_cache = Inr (cl, c')
          \<and> map_of c' ''a'' = None \<and> getClientCacheSize c' = 49"
    by auto
  with h2 h8 show ?thesis
    by (auto simp: getClientCacheSize_def CLIENT_CACHE_MAX_SIZE_def)
qed

text \<open>
  C10 as stated fails: in the sample cache the first account is the least recently
  accessed one, and when its own secret changes its entry is deleted and the new one
  appended at the end, not overwritten where it stood; no other account is dropped
  and 50 entries remain.
\<close>

theorem C10_oldest_account_reappended:
  "getClientCacheSize sample_cache = 50
   \<and> hd sample_cache = sample_entry 1
   \<and> fst (sample_entry 1) = ''a''
   \<and> config (snd (sample_entry 1)) \<noteq> \<lparr>appId = ''id'', appSecret = ''rotated'', domain = None\<rparr>
   \<and> createFeishuClient (Some ''a'') (Some ''id'') (Some ''rotated'') None 100 sample_cache
       = Inr (Client ''id'' ''rotated'' Feishu,
              tl sample_cache
              @ [(''a'', \<lparr>client = Client ''id'' ''rotated'' Feishu,
                          config = \<lparr>appId = ''id'', appSecret = ''rotated'', domain = None\<rparr>,
                          lastAccess = 100\<rparr>)])
   \<and> length (tl sample_cache
              @ [(''a'', \<lparr>client = Client ''id'' ''rotated'' Feishu,
                          config = \<lparr>appId = ''id'', appSecret = ''rotated'', domain = None\<rparr>,
                          lastAccess = 100\<rparr>)]) = 50"
  by code_simp


subsection \<open>Token cache\<close>

lemma map_of_filter_mem:
  "map_of (filter P xs) k = Some e \<Longrightarrow> (k, e) \<in> set xs"
  by (induction xs) (auto split: if_splits)

lemma cleanup_lookup_mem:
  "map_of (tokenCache (cleanupTokenCache now ts)) k = Some e \<Longrightarrow> (k, e) \<in> set (tokenCache ts)"
  by (auto simp: cleanupTokenCache_def dest: map_of_filter_mem map_of_SomeD split: if_splits)

lemma cleanup_purges:
  assumes "\<not> now - lastTokenCacheCleanup ts < TOKEN_CACHE_CLEANUP_INTERVAL_MS"
    and "(k, e) \<in> set (tokenCache (cleanupTokenCache now ts))"
  shows "now \<le> expiresAt e"
  using assms by (auto simp: cleanupTokenCache_def)

text \<open>
  C5, as amended. A token that \<^verbatim>\<open>getToken\<close> returns is either the token of a cached
  entry that expires more than 60 s after the lookup, with no exchange made, or,
  when no such entry is cached, the token a fresh exchange has just returned, which is
  stored to expire after the time to live the server reports (7200 s by default),
  whatever that is.
\<close>

theorem C5_returned_token_cached_fresh_or_exchanged:
  assumes "getToken cr now_sweep now_lookup res now_store ts = (Inr tok, ts')"
  shows "(\<exists>e. map_of (tokenCache (cleanupTokenCache now_sweep ts)) (tokenKey cr) = Some e
              \<and> (tokenKey cr, e) \<in> set (tokenCache ts)
              \<and> token e = tok \<and> now_lookup + 60000 < expiresAt e
              \<and> ts' = cleanupTokenCache now_sweep ts)
         \<or> (\<not> (\<exists>e. map_of (tokenCache (cleanupTokenCache now_sweep ts)) (tokenKey cr) = Some e
                    \<and> now_lookup + 60000 < expiresAt e)
            \<and> (\<exists>data. res = Resolves data \<and> code data = 0
                  \<and> tenant_access_token data = Some tok \<and> tok \<noteq> []
                  \<and> map_of (tokenCache ts') (tokenKey cr)
                      = Some \<lparr>token = tok, expiresAt = now_store + ttl_of data * 1000\<rparr>))"
proof (cases "\<exists>e. map_of (tokenCache (cleanupTokenCache now_sweep ts)) (tokenKey cr) = Some e
                    \<and> now_lookup + 60000 < expiresAt e")
  case True
  then obtain e where e: "map_of (tokenCache (cleanupTokenCache now_sweep ts)) (tokenKey cr) = Some e"
    and f: "now_lookup + 60000 < expiresAt e" by blast
  from e have "(tokenKey cr, e) \<in> set (tokenCache ts)" by (rule cleanup_lookup_mem)
  moreover from assms e f have "tok = token e \<and> ts' = cleanupTokenCache now_sweep ts"
    by (simp add: getToken_def Let_def)
  ultimately show ?thesis using e f by blast
next
  case False
  then have stale: "\<not> (case map_of (tokenCache (cleanupTokenCache now_sweep ts)) (tokenKey cr) of
       None \<Rightarrow> False | Some e \<Rightarrow> expiresAt e > now_lookup + 60000)"
    by (auto split: option.splits)
  from assms stale obtain data where d: "res = Resolves data" 
    by (cases res) (auto simp: getToken_def Let_def)
  from assms stale d have ok: "code data = 0" "\<not> falsy (tenant_access_token data)"
    by (auto simp: getToken_def Let_def split: if_splits)
  then obtain t where t: "tenant_access_token data = Some t" "t \<noteq> []"
    by (auto simp: falsy_def)
  from assms stale d ok t have "tok = t" and
    "ts' = (cleanupTokenCache now_sweep ts)\<lparr>tokenCache :=
        AList.update (tokenKey cr) \<lparr>token = t, expiresAt = now_store + ttl_of data * 1000\<rparr>
          (tokenCache (cleanupTokenCache now_sweep ts))\<rparr>"
    by (auto simp: getToken_def Let_def ttl_of_def)
  then have "map_of (tokenCache ts') (tokenKey cr)
      = Some \<lparr>token = tok, expiresAt = now_store + ttl_of data * 1000\<rparr>"
    by (simp add: update_conv')
  with False d ok(1) t \<open>tok = t\<close> show ?thesis by blast
qed

text \<open>A cached token with 69 s left is returned although the exchange would fail.\<close>

theorem C5_cached_token_witness:
  "fst (getToken sample_creds 1000 1000 (Rejects (Error ''offline'')) 1200
          \<lparr>tokenCache = [(''feishu|cli_a1'', \<lparr>token = ''t-cached'', expiresAt = 70000\<rparr>)],
           lastTokenCacheCleanup = 0\<rparr>) = Inr ''t-cached''
   \<and> (1000 :: int) + 60000 < 70000"
proof -
  let ?ts = "\<lparr>tokenCache = [(''feishu|cli_a1'', \<lparr>token = ''t-cached'', expiresAt = 70000\<rparr>)],
           lastTokenCacheCleanup = 0\<rparr>"
  have h: "getToken sample_creds 1000 1000 (Rejects (Error ''offline'')) 1200 ?ts
      = (Inr ''t-cached'', ?ts)"
    by (simp add: getToken_def cleanupTokenCache_def TOKEN_CACHE_CLEANUP_INTERVAL_MS_def
      tokenKey_def sample_creds_def falsy_def Let_def)
  from C5_returned_token_cached_fresh_or_exchanged [OF h] h show ?thesis by simp
qed

text \<open>
  C5 as stated fails: with an empty cache and an exchange that reports a time to live
  of 30 s, the token returned at time 1200 expires at 31200, less than 60 s later.
\<close>

theorem C5_short_lived_token_returned:
  "fst (getToken sample_creds 1000 1000
          (Resolves \<lparr>code = 0, msg = ''ok'', tenant_access_token = Some ''t-short'',
                     expire = Some 30\<rparr>)
          1200 \<lparr>tokenCache = [], lastTokenCacheCleanup = 0\<rparr>) = Inr ''t-short''
   \<and> map_of (tokenCache (snd (getToken sample_creds 1000 1000
          (Resolves \<lparr>code = 0, msg = ''ok'', tenant_access_token = Some ''t-short'',
                     expire = Some 30\<rparr>)
          1200 \<lparr>tokenCache = [], lastTokenCacheCleanup = 0\<rparr>))) (tokenKey sample_creds)
       = Some \<lparr>token = ''t-short'', expiresAt = 31200\<rparr>
   \<and> (31200 :: int) < 1200 + 60000"
  by (simp add: getToken_def cleanupTokenCache_def TOKEN_CACHE_CLEANUP_INTERVAL_MS_def
      tokenKey_def sample_creds_def falsy_def Let_def)

subsection \<open>Streaming session: start\<close>

text \<open>
  C6. Whenever \<^verbatim>\<open>start\<close> throws, the session is exactly as before, its card state is
  null and it is not active; and on an unstarted session \<^verbatim>\<open>start\<close> throws when the
  token cannot be had, when the card creation rejects, answers a non-zero code or
  no card id, and when the message send rejects, answers a non-zero code or no
  message id.
\<close>

theorem C6_start_failure_leaves_session_unstarted:
  "(start receiveId receiveIdType tok createRes sendRes s = (Some err, s')
       \<longrightarrow> s' = s \<and> state s' = None \<and> \<not> isActive s')
   \<and> (state s = None \<longrightarrow>
         start receiveId receiveIdType (Inl e) createRes sendRes s = (Some e, s))
   \<and> (state s = None \<longrightarrow>
         start receiveId receiveIdType (Inr b) (Rejects e) sendRes s = (Some e, s))
   \<and> (state s = None \<and> (create_code cd \<noteq> 0 \<or> falsy (card_id cd)) \<longrightarrow>
         start receiveId receiveIdType (Inr b) (Resolves cd) sendRes s
           = (Some (Error (''Create card failed: '' @ create_msg cd)), s))
   \<and> (state s = None \<and> create_code cd = 0 \<and> \<not> falsy (card_id cd) \<longrightarrow>
         start receiveId receiveIdType (Inr b) (Resolves cd) (Rejects e) s = (Some e, s))
   \<and> (state s = None \<and> create_code cd = 0 \<and> \<not> falsy (card_id cd)
        \<and> (send_code sd \<noteq> 0 \<or> falsy (message_id sd)) \<longrightarrow>
         start receiveId receiveIdType (Inr b) (Resolves cd) (Resolves sd) s
           = (Some (Error (''Send card failed: '' @ send_msg sd)), s))"
proof -
  have 1: "start receiveId receiveIdType tok createRes sendRes s = (Some err, s')
       \<longrightarrow> s' = s \<and> state s' = None \<and> \<not> isActive s'"
    by (auto simp: start_def isActive_def Let_def split: sum.splits reply.splits if_splits)
  have 2: "state s = None \<longrightarrow>
         start receiveId receiveIdType (Inl e) createRes sendRes s = (Some e, s)"
    by (simp add: start_def)
  have 3: "state s = None \<longrightarrow>
         start receiveId receiveIdType (Inr b) (Rejects e) sendRes s = (Some e, s)"
    by (simp add: start_def)
  have 4: "state s = None \<and> (create_code cd \<noteq> 0 \<or> falsy (card_id cd)) \<longrightarrow>
         start receiveId receiveIdType (Inr b) (Resolves cd) sendRes s
           = (Some (Error (''Create card failed: '' @ create_msg cd)), s)"
    by (simp add: start_def)
  have 5: "state s = None \<and> create_code cd = 0 \<and> \<not> falsy (card_id cd) \<longrightarrow>
         start receiveId receiveIdType (Inr b) (Resolves cd) (Rejects e) s = (Some e, s)"
    by (simp add: start_def)
  have 6: "state s = None \<and> create_code cd = 0 \<and> \<not> falsy (card_id cd)
        \<and> (send_code sd \<noteq> 0 \<or> falsy (message_id sd)) \<longrightarrow>
         start receiveId receiveIdType (Inr b) (Resolves cd) (Resolves sd) s
           = (Some (Error (''Send card failed: '' @ send_msg sd)), s)"
    by (simp add: start_def)
  from 1 2 3 4 5 6 show ?thesis by (intro conjI)
qed

text \<open>A card creation refused with code 99 on a new session.\<close>

theorem C6_start_failure_witness:
  "start ''oc_1'' ''chat_id'' (Inr ''t-1'')
     (Resolves \<lparr>create_code = 99, create_msg = ''denied'', card_id = None\<rparr>)
     (Resolves \<lparr>send_code = 0, send_msg = ''ok'', message_id = Some ''om_1''\<rparr>)
     (new_session sample_creds None)
   = (Some (Error ''Create card failed: denied''), new_session sample_creds None)
   \<and> state (new_session sample_creds None) = None
   \<and> \<not> isActive (new_session sample_creds None)"
proof -
  let ?cd = "\<lparr>create_code = 99, create_msg = ''denied'', card_id = None\<rparr>"
  let ?sd = "\<lparr>send_code = 0, send_msg = ''ok'', message_id = Some ''om_1''\<rparr>"
  let ?s = "new_session sample_creds None"
  let ?err = "Error ''Create card failed: denied''"
  have n: "state ?s = None" by (simp add: new_session_def)
  have h: "state ?s = None \<and> (create_code ?cd \<noteq> 0 \<or> falsy (card_id ?cd))"
    using n by simp
  note c6 = C6_start_failure_leaves_session_unstarted [where s = ?s and cd = ?cd and b = "''t-1''" and receiveId = "''oc_1''"
      and receiveIdType = "''chat_id''" and sendRes = "Resolves ?sd"
      and tok = "Inr ''t-1''" and createRes = "Resolves ?cd" and err = ?err and s' = ?s]
  from h c6 [THEN conjunct2, THEN conjunct2, THEN conjunct2, THEN conjunct1]
  have r: "start ''oc_1'' ''chat_id'' (Inr ''t-1'') (Resolves ?cd) (Resolves ?sd) ?s
      = (Some ?err, ?s)" by simp
  from r c6 [THEN conjunct1] show ?thesis by simp
qed

subsection \<open>Streaming session: ordering\<close>

lemma handleError_fields [simp]:
  "state (handleError c e s) = state s"
  "queue (handleError c e s) = queue s"
  "running (handleError c e s) = running s"
  "closing (handleError c e s) = closing s"
  "sent (handleError c e s) = sent s"
  "creds (handleError c e s) = creds s"
  "pendingText (handleError c e s) = pendingText s"
  "lastUpdateTime (handleError c e s) = lastUpdateTime s"
  "updateThrottleMs (handleError c e s) = updateThrottleMs s"
  "maxErrors (handleError c e s) = maxErrors s"
  "errorCount (handleError c e s) = errorCount s + 1"
  by (simp_all add: handleError_def Let_def)

lemma handleError_closed:
  "closed (handleError c e s) = (closed s \<or> maxErrors s \<le> errorCount s + 1)"
  by (simp add: handleError_def Let_def)

lemma closed_step: "closed s \<Longrightarrow> closed (step e s)"
  by (cases e)
     (auto simp: update_def unit_start_def unit_finish_def close_def close_run_def
        close_update_def close_settings_def handleError_closed Let_def
        split: list.splits option.splits sum.splits reply.splits)

lemma closed_run: "closed s \<Longrightarrow> closed (run evs s)"
  by (induction evs arbitrary: s) (auto simp: closed_step)

lemma accepted_Cons: "accepted (e # es) s = accepts e s @ accepted es (step e s)"
  by (cases e) simp_all

lemma contentCalls_append:
  "contentCalls cr cid n (xs @ ys)
     = contentCalls cr cid n xs @ contentCalls cr cid (n + length xs) ys"
  by (induction xs arbitrary: n) simp_all

lemma step_future:
  assumes "state s = Some st" and "closing s = None" and "token_ok e"
    and "\<not> closed (step e s)"
  shows "\<exists>st'. state (step e s) = Some st' \<and> closing (step e s) = None
           \<and> sent (step e s) @ future (step e s) st' later
               = sent s @ future s st (accepts e s @ later)"
proof (cases e)
  case (Update u tm)
  with assms show ?thesis
    by (auto simp: update_def future_def isActive_def split: option.splits)
next
  case UnitStart
  with assms show ?thesis
    by (auto simp: unit_start_def future_def split: option.splits list.splits)
next
  case (UnitFinish tok res)
  with assms(3) obtain b where tok: "tok = Inr b" by (cases tok) auto
  show ?thesis
  proof (cases "running s")
    case None
    with assms UnitFinish show ?thesis by (simp add: unit_finish_def)
  next
    case (Some t)
    with assms UnitFinish tok show ?thesis
      by (cases res) (simp_all add: unit_finish_def future_def Let_def)
  qed
next
  case (Close finalText)
  with assms show ?thesis
    by (cases "closed s") (simp_all add: close_def)
next
  case (CloseRun tok1 res1 tok2 res2)
  with assms show ?thesis by (simp add: close_run_def)
qed

lemma run_future:
  assumes "state s = Some st" and "closing s = None" and "\<forall>e \<in> set evs. token_ok e"
    and "\<not> closed (run evs s)"
  shows "\<exists>st'. state (run evs s) = Some st'
           \<and> sent (run evs s) @ future (run evs s) st' []
               = sent s @ future s st (accepted evs s)"
  using assms
proof (induction evs arbitrary: s st)
  case Nil
  then show ?case by simp
next
  case (Cons e es)
  from Cons.prems(4) have nc: "\<not> closed (step e s)"
    using closed_run [of "step e s" es] by auto
  from Cons.prems(3) have te: "token_ok e" and tes: "\<forall>e \<in> set es. token_ok e" by simp_all
  from step_future [OF Cons.prems(1,2) te nc, of "accepted es (step e s)"]
  obtain st1 where s1: "state (step e s) = Some st1" and c1: "closing (step e s) = None"
    and eq1: "sent (step e s) @ future (step e s) st1 (accepted es (step e s))
               = sent s @ future s st (accepts e s @ accepted es (step e s))" by blast
  from Cons.prems(4) have "\<not> closed (run es (step e s))" by simp
  from Cons.IH [OF s1 c1 tes this] obtain st' where
    "state (run es (step e s)) = Some st'"
    "sent (run es (step e s)) @ future (run es (step e s)) st' []
       = sent (step e s) @ future (step e s) st1 (accepted es (step e s))" by blast
  with eq1 show ?case by (simp add: accepted_Cons)
qed

lemma contentCalls_content: "map call_content (contentCalls cr cid n ts) = ts"
  by (induction ts arbitrary: n) (simp_all add: contentCall_def)

lemma contentCalls_sequence:
  "map call_sequence (contentCalls cr cid n ts) = [Suc n ..< Suc n + length ts]"
proof (induction ts arbitrary: n)
  case Nil
  then show ?case by simp
next
  case (Cons t ts)
  have "[Suc n ..< Suc n + length (t # ts)] = Suc n # [Suc (Suc n) ..< Suc (Suc n) + length ts]"
    by (simp add: upt_rec)
  with Cons show ?case by (simp add: contentCall_def)
qed

lemma contentCalls_length: "length (contentCalls cr cid n ts) = length ts"
  by (induction ts arbitrary: n) simp_all

lemma contentCalls_kind: "list_all is_content_update (contentCalls cr cid n ts)"
  by (induction ts arbitrary: n) (simp_all add: contentCall_def)

text \<open>
  C1, as amended. Take an active session with nothing chained and any schedule of its
  events in which every unit that runs gets its token. If the session is still
  active after the schedule and its queue has drained, then the card mutations issued
  during the schedule are exactly the content updates of the accepted \<^verbatim>\<open>update\<close>
  calls, one for each, carrying their texts in the order of the calls, with the
  consecutive sequence numbers that follow the session's, whatever the order in which
  calls and requests interleave.
\<close>

theorem C1_accepted_updates_issued_in_order:
  assumes "state s = Some st" and "closing s = None" and "drained s"
    and "\<forall>e \<in> set evs. token_ok e"
    and "isActive (run evs s)" and "drained (run evs s)"
  shows "\<exists>new. sent (run evs s) = sent s @ new
           \<and> new = contentCalls (creds s) (cardId st) (sequence st) (accepted evs s)
           \<and> list_all is_content_update new
           \<and> length new = length (accepted evs s)
           \<and> map call_content new = accepted evs s
           \<and> map call_sequence new
               = [Suc (sequence st) ..< Suc (sequence st) + length (accepted evs s)]
           \<and> sorted_wrt (<) (map call_sequence new)"
proof -
  from assms(5) have nc: "\<not> closed (run evs s)" by (simp add: isActive_def)
  from run_future [OF assms(1,2,4) nc] obtain st' where
    "sent (run evs s) @ future (run evs s) st' [] = sent s @ future s st (accepted evs s)"
    by blast
  with assms(3,6) have "sent (run evs s)
      = sent s @ contentCalls (creds s) (cardId st) (sequence st) (accepted evs s)"
    by (simp add: future_def drained_def)
  then show ?thesis
    by (simp add: contentCalls_content contentCalls_sequence contentCalls_kind
        contentCalls_length del: upt_Suc)
qed

text \<open>Two accepted updates, the first of which fails, are both issued, in order.\<close>

theorem C1_ordering_witness:
  "map call_content (sent (run two_updates sample_started)) = [''t1'', ''t2'']
   \<and> map call_sequence (sent (run two_updates sample_started)) = [2, 3]"
proof -
  have h1: "state sample_started
      = Some \<lparr>cardId = ''card_1'', messageId = ''om_1'', sequence = 1, currentText = []\<rparr>"
    by code_simp
  have h2: "closing sample_started = None" by code_simp
  have h3: "drained sample_started" by code_simp
  have h4: "\<forall>e \<in> set two_updates. token_ok e" by code_simp
  have h5: "isActive (run two_updates sample_started)" by code_simp
  have h6: "drained (run two_updates sample_started)" by code_simp
  have h7: "sent sample_started = []" by code_simp
  have h8: "accepted two_updates sample_started = [''t1'', ''t2'']" by code_simp
  from C1_accepted_updates_issued_in_order [OF h1 h2 h3 h4 h5 h6] h7 h8 show ?thesis
    by (simp add: upt_rec contentCall_def)
qed

text \<open>
  C1 as stated fails: the six updates of \<open>six_updates\<close> are all accepted by the
  throttle, the first five requests fail, the fifth failure closes the session, and
  the sixth unit returns at its guard: five content updates are issued, not six.
\<close>

theorem C1_queued_update_skipped_after_breaker:
  "isActive sample_started
   \<and> accepted six_updates sample_started = [''t1'', ''t2'', ''t3'', ''t4'', ''t5'', ''t6'']
   \<and> map call_content (sent (run six_updates sample_started))
       = [''t1'', ''t2'', ''t3'', ''t4'', ''t5'']
   \<and> drained (run six_updates sample_started)"
  by code_simp

subsection \<open>Streaming session: error containment\<close>

lemma handleError_reported:
  "\<exists>rest. reported (handleError c e s)
      = reported s @ (''StreamingCard '' @ c @ '': '' @ String_of e) # rest"
  by (simp add: handleError_def Let_def)

lemma handleError_reported_length:
  "length (reported s) < length (reported (handleError c e s))"
  by (simp add: handleError_def Let_def)

lemma unit_finish_failed:
  assumes "running s = Some t" and "state s = Some st" and "failed tok res"
  shows "errorCount (unit_finish tok res s) = errorCount s + 1
         \<and> length (reported s) < length (reported (unit_finish tok res s))
         \<and> running (unit_finish tok res s) = None
         \<and> (maxErrors s \<le> errorCount s + 1 \<longrightarrow> closed (unit_finish tok res s))"
proof -
  from assms obtain err s0 where u: "unit_finish tok res s = handleError ''update'' err s0"
    and f: "errorCount s0 = errorCount s" "reported s0 = reported s"
       "maxErrors s0 = maxErrors s" "running s0 = None"
    by (cases tok; cases res) (simp_all add: unit_finish_def failed_def Let_def)
  from handleError_reported_length [of s0 "''update''" err] f u show ?thesis
    by (simp add: handleError_closed)
qed

lemma close_update_failed:
  assumes "state s = Some st" and "failed tok res"
  shows "errorCount (close_update text tok res s) = errorCount s + 1
         \<and> length (reported s) < length (reported (close_update text tok res s))
         \<and> (maxErrors s \<le> errorCount s + 1 \<longrightarrow> closed (close_update text tok res s))"
proof -
  from assms obtain err s0 where
    u: "close_update text tok res s = handleError ''close update'' err s0"
    and f: "errorCount s0 = errorCount s" "reported s0 = reported s"
       "maxErrors s0 = maxErrors s"
    by (cases tok; cases res) (simp_all add: close_update_def failed_def Let_def)
  from handleError_reported_length [of s0 "''close update''" err] f u show ?thesis
    by (simp add: handleError_closed)
qed

lemma close_settings_failed:
  assumes "state s = Some st" and "failed tok res"
  shows "errorCount (close_settings text tok res s) = errorCount s + 1
         \<and> length (reported s) < length (reported (close_settings text tok res s))
         \<and> (maxErrors s \<le> errorCount s + 1 \<longrightarrow> closed (close_settings text tok res s))"
proof -
  from assms obtain err s0 where
    u: "close_settings text tok res s = handleError ''close settings'' err s0"
    and f: "errorCount s0 = errorCount s" "reported s0 = reported s"
       "maxErrors s0 = maxErrors s"
    by (cases tok; cases res) (simp_all add: close_settings_def failed_def Let_def)
  from handleError_reported_length [of s0 "''close settings''" err] f u show ?thesis
    by (simp add: handleError_closed)
qed

lemma errorCount_step: "errorCount s \<le> errorCount (step e s)"
  by (cases e)
     (auto simp: update_def unit_start_def unit_finish_def close_def close_run_def
        close_update_def close_settings_def Let_def
        split: list.splits option.splits sum.splits reply.splits)

lemma errorCount_run: "errorCount s \<le> errorCount (run evs s)"
proof (induction evs arbitrary: s)
  case Nil
  then show ?case by simp
next
  case (Cons e es)
  have "errorCount s \<le> errorCount (step e s)" by (rule errorCount_step)
  also have "\<dots> \<le> errorCount (run es (step e s))" by (rule Cons.IH)
  finally show ?case by simp
qed

lemma closed_step_silent:
  assumes "closed s" and "running s = None" and "closing s = None \<or> \<not> is_CloseRun e"
  shows "sent (step e s) = sent s \<and> running (step e s) = None
         \<and> closing (step e s) = closing s"
  using assms
  by (cases e)
     (auto simp: update_def unit_start_def unit_finish_def close_def close_run_def
        split: list.splits option.splits)

lemma closed_run_silent:
  assumes "closed s" and "running s = None"
    and "closing s = None \<or> (\<forall>e \<in> set evs. \<not> is_CloseRun e)"
  shows "sent (run evs s) = sent s"
  using assms
proof (induction evs arbitrary: s)
  case Nil
  then show ?case by simp
next
  case (Cons e es)
  from Cons.prems have c: "closing s = None \<or> \<not> is_CloseRun e" by auto
  from closed_step_silent [OF Cons.prems(1,2) c]
  have s1: "sent (step e s) = sent s" and r1: "running (step e s) = None"
    and c1: "closing (step e s) = closing s" by simp_all
  from Cons.prems(3) c1 have "closing (step e s) = None \<or> (\<forall>e \<in> set es. \<not> is_CloseRun e)"
    by auto
  from Cons.IH [OF closed_step [OF Cons.prems(1)] r1 this] s1 show ?case by simp
qed

text \<open>
  C2. The functions of \<^verbatim>\<open>update\<close> and \<^verbatim>\<open>close\<close> return a session and no error: a
  failure is not raised. For a session with the threshold 5: \<^verbatim>\<open>handleError\<close> adds
  one to the error count and hands its message to the error callback, and an error
  count of 5 or more leaves the session closed and inactive; a failed request of a
  unit, of the final content update or of the settings update counts one error,
  reports it and closes the session when the count reaches 5; and once the session is
  closed with no unit running, it stays closed and inactive, its error count never
  decreases, and no event other than the rest of a pending \<^verbatim>\<open>close\<close> issues a card
  mutation (no event at all when no \<^verbatim>\<open>close\<close> is pending).
\<close>

theorem C2_errors_contained_and_breaker_trips:
  assumes "maxErrors s = 5"
  shows "getErrorCount (handleError c e s) = getErrorCount s + 1
     \<and> (\<exists>rest. reported (handleError c e s)
           = reported s @ (''StreamingCard '' @ c @ '': '' @ String_of e) # rest)
     \<and> (5 \<le> getErrorCount (handleError c e s)
          \<longrightarrow> closed (handleError c e s) \<and> \<not> isActive (handleError c e s))
     \<and> (running s = Some t \<and> state s = Some st \<and> failed tok res
          \<longrightarrow> getErrorCount (unit_finish tok res s) = getErrorCount s + 1
            \<and> length (reported s) < length (reported (unit_finish tok res s))
            \<and> running (unit_finish tok res s) = None
            \<and> (5 \<le> getErrorCount s + 1 \<longrightarrow> closed (unit_finish tok res s)))
     \<and> (state s = Some st \<and> failed tok res
          \<longrightarrow> getErrorCount (close_update u tok res s) = getErrorCount s + 1
            \<and> length (reported s) < length (reported (close_update u tok res s))
            \<and> (5 \<le> getErrorCount s + 1 \<longrightarrow> closed (close_update u tok res s)))
     \<and> (state s = Some st \<and> failed tok res
          \<longrightarrow> getErrorCount (close_settings u tok res s) = getErrorCount s + 1
            \<and> length (reported s) < length (reported (close_settings u tok res s))
            \<and> (5 \<le> getErrorCount s + 1 \<longrightarrow> closed (close_settings u tok res s)))
     \<and> (closed s \<and> running s = None
          \<longrightarrow> closed (run evs s) \<and> \<not> isActive (run evs s)
            \<and> getErrorCount s \<le> getErrorCount (run evs s)
            \<and> (closing s = None \<or> (\<forall>ev \<in> set evs. \<not> is_CloseRun ev)
                 \<longrightarrow> sent (run evs s) = sent s))"
proof -
  have 1: "getErrorCount (handleError c e s) = getErrorCount s + 1"
    by (simp add: getErrorCount_def)
  have 2: "\<exists>rest. reported (handleError c e s)
           = reported s @ (''StreamingCard '' @ c @ '': '' @ String_of e) # rest"
    by (rule handleError_reported)
  have 3: "5 \<le> getErrorCount (handleError c e s)
          \<longrightarrow> closed (handleError c e s) \<and> \<not> isActive (handleError c e s)"
    using assms by (simp add: getErrorCount_def handleError_closed isActive_def)
  have 4: "running s = Some t \<and> state s = Some st \<and> failed tok res
          \<longrightarrow> getErrorCount (unit_finish tok res s) = getErrorCount s + 1
            \<and> length (reported s) < length (reported (unit_finish tok res s))
            \<and> running (unit_finish tok res s) = None
            \<and> (5 \<le> getErrorCount s + 1 \<longrightarrow> closed (unit_finish tok res s))"
    using unit_finish_failed [of s t st tok res] assms by (simp add: getErrorCount_def)
  have 5: "state s = Some st \<and> failed tok res
          \<longrightarrow> getErrorCount (close_update u tok res s) = getErrorCount s + 1
            \<and> length (reported s) < length (reported (close_update u tok res s))
            \<and> (5 \<le> getErrorCount s + 1 \<longrightarrow> closed (close_update u tok res s))"
    using close_update_failed [of s st tok res u] assms by (simp add: getErrorCount_def)
  have 6: "state s = Some st \<and> failed tok res
          \<longrightarrow> getErrorCount (close_settings u tok res s) = getErrorCount s + 1
            \<and> length (reported s) < length (reported (close_settings u tok res s))
            \<and> (5 \<le> getErrorCount s + 1 \<longrightarrow> closed (close_settings u tok res s))"
    using close_settings_failed [of s st tok res u] assms by (simp add: getErrorCount_def)
  have 7: "closed s \<and> running s = None
          \<longrightarrow> closed (run evs s) \<and> \<not> isActive (run evs s)
            \<and> getErrorCount s \<le> getErrorCount (run evs s)
            \<and> (closing s = None \<or> (\<forall>ev \<in> set evs. \<not> is_CloseRun ev)
                 \<longrightarrow> sent (run evs s) = sent s)"
    using closed_run [of s evs] errorCount_run [of s evs] closed_run_silent [of s evs]
    by (auto simp: isActive_def getErrorCount_def)
  from 1 2 3 4 5 6 7 show ?thesis by (intro conjI)
qed

text \<open>
  After the five failures of \<open>six_updates\<close> the count is 5 and a further update,
  its would-be unit and a \<^verbatim>\<open>close\<close> issue nothing.
\<close>

theorem C2_breaker_witness:
  "getErrorCount (run six_updates sample_started) = 5
   \<and> \<not> isActive (run [Update ''t7'' 7000, UnitStart, UnitFinish (Inr ''t-1'') (Resolves http_ok),
                        Close None,
                        CloseRun (Inr ''t-1'') (Resolves http_ok) (Inr ''t-1'') (Resolves http_ok)]
                    (run six_updates sample_started))
   \<and> sent (run [Update ''t7'' 7000, UnitStart, UnitFinish (Inr ''t-1'') (Resolves http_ok),
                 Close None,
                 CloseRun (Inr ''t-1'') (Resolves http_ok) (Inr ''t-1'') (Resolves http_ok)]
             (run six_updates sample_started))
       = sent (run six_updates sample_started)"
proof -
  let ?s = "run six_updates sample_started"
  have h: "maxErrors ?s = 5" by code_simp
  have c: "closed ?s \<and> running ?s = None" by code_simp
  have n: "closing ?s = None" by code_simp
  have e: "getErrorCount ?s = 5" by code_simp
  note c2 = C2_errors_contained_and_breaker_trips [OF h, where evs = "[Update ''t7'' 7000, UnitStart,
      UnitFinish (Inr ''t-1'') (Resolves http_ok), Close None,
      CloseRun (Inr ''t-1'') (Resolves http_ok) (Inr ''t-1'') (Resolves http_ok)]"]
  from c n e c2 [THEN conjunct2, THEN conjunct2, THEN conjunct2, THEN conjunct2,
      THEN conjunct2, THEN conjunct2]
  show ?thesis by simp
qed

subsection \<open>Streaming session: throttle\<close>

text \<open>
  C3, as amended. On an active session with nothing chained, \<^verbatim>\<open>update(a)\<close> is
  accepted and \<^verbatim>\<open>update(b)\<close> follows within the throttle window, with no further
  call. However the second call interleaves with the unit of the first, and provided
  the unit gets its token, exactly one content update is issued and it carries \<open>a\<close>;
  \<open>b\<close> is kept as the pending text (unless the session has been closed by the
  failure of the request before the second call).
\<close>

theorem C3_throttled_pair_sends_first_text:
  assumes "state s = Some st" and "\<not> closed s" and "drained s"
    and "\<not> now - lastUpdateTime s < updateThrottleMs s"
    and "now' - now < updateThrottleMs s"
  shows "\<forall>evs \<in> set [[Update a now, Update b now', UnitStart, UnitFinish (Inr bearer) res],
                      [Update a now, UnitStart, Update b now', UnitFinish (Inr bearer) res],
                      [Update a now, UnitStart, UnitFinish (Inr bearer) res, Update b now']].
           sent (run evs s) = sent s @ [contentCall (creds s) (cardId st) a (Suc (sequence st))]
         \<and> drained (run evs s)
         \<and> (isActive (run evs s) \<longrightarrow> pendingText (run evs s) = Some b)"
proof -
  let ?s1 = "update a now s"
  from assms have s1: "?s1 = s\<lparr>pendingText := None, lastUpdateTime := now, queue := [a]\<rparr>"
    by (simp add: update_def drained_def)
  let ?c = "contentCall (creds s) (cardId st) a (Suc (sequence st))"
  have A: "sent (run [Update a now, Update b now', UnitStart, UnitFinish (Inr bearer) res] s)
        = sent s @ [?c]
      \<and> drained (run [Update a now, Update b now', UnitStart, UnitFinish (Inr bearer) res] s)
      \<and> pendingText (run [Update a now, Update b now', UnitStart, UnitFinish (Inr bearer) res] s)
          = Some b"
    using assms
    by (cases res)
       (simp_all add: s1 update_def unit_start_def unit_finish_def drained_def Let_def)
  have B: "sent (run [Update a now, UnitStart, Update b now', UnitFinish (Inr bearer) res] s)
        = sent s @ [?c]
      \<and> drained (run [Update a now, UnitStart, Update b now', UnitFinish (Inr bearer) res] s)
      \<and> pendingText (run [Update a now, UnitStart, Update b now', UnitFinish (Inr bearer) res] s)
          = Some b"
    using assms
    by (cases res)
       (simp_all add: s1 update_def unit_start_def unit_finish_def drained_def Let_def)
  have C: "sent (run [Update a now, UnitStart, UnitFinish (Inr bearer) res, Update b now'] s)
        = sent s @ [?c]
      \<and> drained (run [Update a now, UnitStart, UnitFinish (Inr bearer) res, Update b now'] s)
      \<and> (isActive (run [Update a now, UnitStart, UnitFinish (Inr bearer) res, Update b now'] s)
           \<longrightarrow> pendingText (run [Update a now, UnitStart, UnitFinish (Inr bearer) res,
                                  Update b now'] s) = Some b)"
    using assms
    by (cases res)
       (auto simp: s1 update_def unit_start_def unit_finish_def drained_def Let_def
          isActive_def handleError_closed)
  from A B C show ?thesis by simp
qed

text \<open>The pair of updates at times 1000 and 1050 with the default throttle of 100.\<close>

theorem C3_throttle_witness:
  "sent (run throttled_pair sample_started)
     = [contentCall sample_creds ''card_1'' ''a'' 2]
   \<and> pendingText (run throttled_pair sample_started) = Some ''b''"
proof -
  have h1: "state sample_started
      = Some \<lparr>cardId = ''card_1'', messageId = ''om_1'', sequence = 1, currentText = []\<rparr>"
    by code_simp
  have h2: "\<not> closed sample_started" by code_simp
  have h3: "drained sample_started" by code_simp
  have h4: "\<not> 1000 - lastUpdateTime sample_started < updateThrottleMs sample_started"
    by code_simp
  have h5: "1050 - 1000 < updateThrottleMs sample_started" by code_simp
  have h6: "sent sample_started = [] \<and> creds sample_started = sample_creds" by code_simp
  have h7: "isActive (run throttled_pair sample_started)" by code_simp
  from C3_throttled_pair_sends_first_text [OF h1 h2 h3 h4 h5, of "''a''" "''b''" "''t-1''" "Resolves http_ok"] h6 h7
  show ?thesis by (simp add: throttled_pair_def numeral_2_eq_2)
qed

text \<open>
  C3 as stated fails: after \<^verbatim>\<open>update("a")\<close> at 1000 and \<^verbatim>\<open>update("b")\<close> at 1050
  the one content update issued carries \<^verbatim>\<open>a\<close>, and \<^verbatim>\<open>b\<close> is pending, not sent.
\<close>

theorem C3_later_text_not_sent:
  "isActive sample_started
   \<and> accepted throttled_pair sample_started = [''a'']
   \<and> map call_content (sent (run throttled_pair sample_started)) = [''a'']
   \<and> pendingText (run throttled_pair sample_started) = Some ''b''
   \<and> drained (run throttled_pair sample_started)"
  by code_simp

subsection \<open>Streaming session: close\<close>

text \<open>
  C7, as amended. When the rest of \<^verbatim>\<open>close\<close> runs, the final text is the argument
  if one was passed, else the pending text if there is one, else \<^verbatim>\<open>currentText\<close>.
  Provided both tokens are obtained: if the final text is not empty and differs from
  \<^verbatim>\<open>currentText\<close>, one content update with the next sequence number is issued
  before the settings update, which takes the number after; otherwise, and so for an
  empty final text, only the settings update is issued.
\<close>

theorem C7_close_final_text_and_flush:
  assumes "closing s = Some finalText" and "drained s" and "state s = Some st"
  shows "\<exists>final.
           (\<forall>t. finalText = Some t \<longrightarrow> final = t)
         \<and> (finalText = None \<longrightarrow>
              (\<forall>p. pendingText s = Some p \<longrightarrow> final = p)
            \<and> (pendingText s = None \<longrightarrow> final = currentText st))
         \<and> sent (close_run (Inr b1) res1 (Inr b2) res2 s)
             = sent s
               @ (if final \<noteq> [] \<and> final \<noteq> currentText st
                  then [contentCall (creds s) (cardId st) final (sequence st + 1),
                        settingsCall (creds s) (cardId st) final (sequence st + 2)]
                  else [settingsCall (creds s) (cardId st) final (sequence st + 1)])"
proof -
  let ?final = "closeText finalText s st"
  let ?st1 = "st\<lparr>sequence := sequence st + 1,
                 currentText := (if failed (Inr b1) res1 then currentText st else ?final)\<rparr>"
  let ?s1 = "close_update ?final (Inr b1) res1 s"
  have p: "(\<forall>t. finalText = Some t \<longrightarrow> ?final = t)
         \<and> (finalText = None \<longrightarrow>
              (\<forall>p. pendingText s = Some p \<longrightarrow> ?final = p)
            \<and> (pendingText s = None \<longrightarrow> ?final = currentText st))"
    by (simp add: closeText_def)
  have cu1: "state ?s1 = Some ?st1"
    using assms(3) by (cases res1) (simp_all add: close_update_def failed_def Let_def)
  have cu2: "sent ?s1 = sent s @ [contentCall (creds s) (cardId st) ?final (sequence st + 1)]"
    using assms(3) by (cases res1) (simp_all add: close_update_def Let_def)
  have cu3: "creds ?s1 = creds s"
    using assms(3) by (cases res1) (simp_all add: close_update_def Let_def)
  have cs: "sent (close_settings ?final (Inr b2) res2 s1)
        = sent s1 @ [settingsCall (creds s1) (cardId st1) ?final (sequence st1 + 1)]"
    if "state s1 = Some st1" for s1 st1
    using that by (cases res2) (simp_all add: close_settings_def Let_def)
  have unfold: "sent (close_run (Inr b1) res1 (Inr b2) res2 s)
      = sent (close_settings ?final (Inr b2) res2
               (if ?final \<noteq> [] \<and> ?final \<noteq> currentText st then ?s1 else s))"
    using assms by (simp add: close_run_def drained_def Let_def)
  have "sent (close_run (Inr b1) res1 (Inr b2) res2 s)
             = sent s
               @ (if ?final \<noteq> [] \<and> ?final \<noteq> currentText st
                  then [contentCall (creds s) (cardId st) ?final (sequence st + 1),
                        settingsCall (creds s) (cardId st) ?final (sequence st + 2)]
                  else [settingsCall (creds s) (cardId st) ?final (sequence st + 1)])"
  proof (cases "?final \<noteq> [] \<and> ?final \<noteq> currentText st")
    case True
    have e1: "sent (close_run (Inr b1) res1 (Inr b2) res2 s)
        = sent (close_settings ?final (Inr b2) res2 ?s1)"
      unfolding unfold by (simp only: if_P [OF True])
    have e2: "sent (close_settings ?final (Inr b2) res2 ?s1)
        = sent ?s1 @ [settingsCall (creds ?s1) (cardId ?st1) ?final (sequence ?st1 + 1)]"
      using cu1 by (rule cs)
    have e3: "sent ?s1 @ [settingsCall (creds ?s1) (cardId ?st1) ?final (sequence ?st1 + 1)]
        = sent s @ [contentCall (creds s) (cardId st) ?final (sequence st + 1),
                    settingsCall (creds s) (cardId st) ?final (sequence st + 2)]"
      using cu2 cu3 by simp
    show ?thesis
      unfolding if_P [OF True] using e1 e2 e3 by simp
  next
    case False
    have e1: "sent (close_run (Inr b1) res1 (Inr b2) res2 s)
        = sent (close_settings ?final (Inr b2) res2 s)"
      unfolding unfold by (simp only: if_not_P [OF False])
    have e2: "sent (close_settings ?final (Inr b2) res2 s)
        = sent s @ [settingsCall (creds s) (cardId st) ?final (sequence st + 1)]"
      using assms(3) by (rule cs)
    show ?thesis
      unfolding if_not_P [OF False] using e1 e2 by simp
  qed
  with p show ?thesis by (intro exI [of _ ?final] conjI) blast+
qed

text \<open>
  A \<^verbatim>\<open>close()\<close> after the throttled pair flushes the pending text \<^verbatim>\<open>b\<close> and then
  updates the settings.
\<close>

theorem C7_close_witness:
  "sent (close_run (Inr ''t-1'') (Resolves http_ok) (Inr ''t-1'') (Resolves http_ok)
           (close None (run throttled_pair sample_started)))
     = [contentCall sample_creds ''card_1'' ''a'' 2,
        contentCall sample_creds ''card_1'' ''b'' 3,
        settingsCall sample_creds ''card_1'' ''b'' 4]"
proof -
  let ?s = "close None (run throttled_pair sample_started)"
  have h1: "closing ?s = Some None" by code_simp
  have h2: "drained ?s" by code_simp
  have h3: "state ?s
      = Some \<lparr>cardId = ''card_1'', messageId = ''om_1'', sequence = 2, currentText = ''a''\<rparr>"
    by code_simp
  have h4: "pendingText ?s = Some ''b''" by code_simp
  have h5: "sent ?s = [contentCall sample_creds ''card_1'' ''a'' 2]" by code_simp
  have h6: "creds ?s = sample_creds" by code_simp
  from C7_close_final_text_and_flush [OF h1 h2 h3, of "''t-1''" "Resolves http_ok" "''t-1''" "Resolves http_ok"]
    h4 h5 h6
  show ?thesis by auto
qed

text \<open>
  C7 as stated fails: with \<^verbatim>\<open>currentText\<close> equal to \<^verbatim>\<open>t1\<close>, \<^verbatim>\<open>close("")\<close>
  chooses the empty final text, which differs from \<^verbatim>\<open>currentText\<close>, and issues the
  settings update only.
\<close>

theorem C7_empty_final_text_not_flushed:
  "isActive (run one_update sample_started)
   \<and> map_option currentText (state (run one_update sample_started)) = Some ''t1''
   \<and> sent (run [Close (Some []),
                 CloseRun (Inr ''t-1'') (Resolves http_ok) (Inr ''t-1'') (Resolves http_ok)]
             (run one_update sample_started))
       = sent (run one_update sample_started)
         @ [settingsCall sample_creds ''card_1'' [] 3]"
  by code_simp

subsection \<open>Streaming session: current text\<close>

text \<open>
  C8, as amended. A unit of \<^verbatim>\<open>update\<close> writes its text to \<^verbatim>\<open>currentText\<close> when it
  begins, before its request is issued, and the text is still there when the unit
  ends, whether the request failed or not. The final content update of \<^verbatim>\<open>close\<close>
  writes \<^verbatim>\<open>currentText\<close> only after its request has succeeded: when the request
  fails, \<^verbatim>\<open>currentText\<close> keeps its former value although the request was issued.
\<close>

theorem C8_currentText_set_before_update_after_close:
  assumes "state s = Some st"
  shows "(queue s = t # rest \<and> running s = None \<and> \<not> closed s \<longrightarrow>
            map_option currentText (state (unit_start s)) = Some t
          \<and> sent (unit_start s) = sent s
          \<and> map_option currentText (state (unit_finish tok res (unit_start s))) = Some t
          \<and> (tok = Inr b \<longrightarrow>
               sent (unit_finish tok res (unit_start s))
                 = sent s @ [contentCall (creds s) (cardId st) t (sequence st + 1)]))
       \<and> map_option currentText (state (close_update u tok res s))
           = Some (if failed tok res then currentText st else u)
       \<and> (tok = Inr b \<longrightarrow>
            sent (close_update u tok res s)
              = sent s @ [contentCall (creds s) (cardId st) u (sequence st + 1)])"
proof -
  have 1: "queue s = t # rest \<and> running s = None \<and> \<not> closed s \<longrightarrow>
            map_option currentText (state (unit_start s)) = Some t
          \<and> sent (unit_start s) = sent s
          \<and> map_option currentText (state (unit_finish tok res (unit_start s))) = Some t
          \<and> (tok = Inr b \<longrightarrow>
               sent (unit_finish tok res (unit_start s))
                 = sent s @ [contentCall (creds s) (cardId st) t (sequence st + 1)])"
    using assms
    by (cases tok; cases res) (simp_all add: unit_start_def unit_finish_def Let_def)
  have 2: "map_option currentText (state (close_update u tok res s))
           = Some (if failed tok res then currentText st else u)"
    using assms
    by (cases tok; cases res) (simp_all add: close_update_def failed_def Let_def)
  have 3: "tok = Inr b \<longrightarrow>
            sent (close_update u tok res s)
              = sent s @ [contentCall (creds s) (cardId st) u (sequence st + 1)]"
    using assms
    by (cases res) (simp_all add: close_update_def Let_def)
  from 1 2 3 show ?thesis by (intro conjI)
qed

text \<open>An update whose request fails with status 500.\<close>

theorem C8_update_witness:
  "map_option currentText
     (state (unit_finish (Inr ''t-1'') (Resolves http_500)
               (unit_start (update ''t1'' 1000 sample_started)))) = Some ''t1''
   \<and> sent (unit_start (update ''t1'' 1000 sample_started)) = []
   \<and> sent (unit_finish (Inr ''t-1'') (Resolves http_500)
               (unit_start (update ''t1'' 1000 sample_started)))
       = [contentCall sample_creds ''card_1'' ''t1'' 2]"
proof -
  let ?s = "update ''t1'' 1000 sample_started"
  have h1: "state ?s
      = Some \<lparr>cardId = ''card_1'', messageId = ''om_1'', sequence = 1, currentText = []\<rparr>"
    by code_simp
  have h2: "queue ?s = ''t1'' # [] \<and> running ?s = None \<and> \<not> closed ?s" by code_simp
  have h3: "sent ?s = [] \<and> creds ?s = sample_creds" by code_simp
  from C8_currentText_set_before_update_after_close [OF h1, where t = "''t1''" and rest = "[]" and tok = "Inr ''t-1''"
      and res = "Resolves http_500" and b = "''t-1''"] h2 h3
  show ?thesis by (simp add: numeral_2_eq_2)
qed

text \<open>
  C8 as stated fails: the final content update of \<^verbatim>\<open>close("final")\<close> is issued and
  fails, and \<^verbatim>\<open>currentText\<close> is still \<^verbatim>\<open>t1\<close>.
\<close>

theorem C8_failed_close_update_keeps_currentText:
  "map call_content (filter is_content_update
      (sent (run [Close (Some ''final''),
                  CloseRun (Inr ''t-1'') (Resolves http_500) (Inr ''t-1'') (Resolves http_ok)]
              (run one_update sample_started))))
     = [''t1'', ''final'']
   \<and> map_option currentText
        (state (run [Close (Some ''final''),
                     CloseRun (Inr ''t-1'') (Resolves http_500) (Inr ''t-1'') (Resolves http_ok)]
                 (run one_update sample_started)))
     = Some ''t1''"
  by code_simp

end
